theory Spec2Isabelle
  imports Complex_Main "HOL-Library.Multiset"
begin

section \<open>Data model\<close>

text \<open>
  The decoder works on C \<open>float\<close> values.  They are modelled as real numbers: every
  comparison, \<open>min\<close>, \<open>max\<close> and copy of the source is exact in this model, while
  rounding, overflow, infinities and NaN are outside of it.  The properties below of the
  suppression engine and of the decoders are about comparisons, clamping and the order of
  the operations rather than about computed values.  Where a property is about the
  arithmetic itself (the value of \<open>iou\<close>), the function is modelled a second time with the
  rounding of the machine.

  A \<open>float*\<close> (or the \<open>void*\<close> buffer of a layer read as \<open>float*\<close>) is a function from
  the index to the value stored there: the source never knows the length of a buffer.
\<close>

type_synonym buffer = "nat \<Rightarrow> real"

text \<open>\<open>float bbox[LOCATIONS]\<close> with \<open>LOCATIONS = 4\<close>: center x, center y, width, height.
  The selector \<open>bK\<close> reads \<open>bbox[K]\<close>.\<close>

datatype box4 = Box4 (b0: real) (b1: real) (b2: real) (b3: real)

text \<open>\<open>struct alignas(float) Detection\<close>: six consecutive floats.\<close>

record Detection =
  bbox :: box4
  conf :: real
  class_id :: real

definition det_size :: nat where
  "det_size = 6"

text \<open>\<open>memcpy(&det, &output[p], det_size * sizeof(float))\<close>.\<close>

definition read_det :: "buffer \<Rightarrow> nat \<Rightarrow> Detection" where
  "read_det output p =
     \<lparr>bbox = Box4 (output p) (output (p + 1)) (output (p + 2)) (output (p + 3)),
      conf = output (p + 4),
      class_id = output (p + 5)\<rparr>"

section \<open>Intersection over union\<close>

text \<open>The function as the source writes it, over the real numbers.\<close>

definition iou :: "box4 \<Rightarrow> box4 \<Rightarrow> real" where
  "iou lbox rbox =
     (let interBox0 = max (b0 lbox - b2 lbox / 2) (b0 rbox - b2 rbox / 2);
          interBox1 = min (b0 lbox + b2 lbox / 2) (b0 rbox + b2 rbox / 2);
          interBox2 = max (b1 lbox - b3 lbox / 2) (b1 rbox - b3 rbox / 2);
          interBox3 = min (b1 lbox + b3 lbox / 2) (b1 rbox + b3 rbox / 2)
      in if interBox2 > interBox3 \<or> interBox0 > interBox1 then 0
         else (let interBoxS = (interBox1 - interBox0) * (interBox3 - interBox2)
               in interBoxS / (b2 lbox * b3 lbox + b2 rbox * b3 rbox - interBoxS)))"




section \<open>The suppression engine\<close>

definition cmp :: "Detection \<Rightarrow> Detection \<Rightarrow> bool" where
  "cmp a b = (conf a > conf b)"

text \<open>
  \<open>std::sort(dets.begin(), dets.end(), cmp)\<close>.  The C++ standard leaves the order of
  elements that \<open>cmp\<close> does not separate open; the model fixes it as the stable one
  (insertion from the right, an element going in front of the first one that is not
  strictly before it).
\<close>

fun sort_insert :: "Detection \<Rightarrow> Detection list \<Rightarrow> Detection list" where
  "sort_insert a [] = [a]"
| "sort_insert a (x # xs) = (if cmp x a then x # sort_insert a xs else a # x # xs)"

fun std_sort :: "Detection list \<Rightarrow> Detection list" where
  "std_sort [] = []"
| "std_sort (x # xs) = sort_insert x (std_sort xs)"

text \<open>
  \<open>std::map<float, std::vector<Detection>> m\<close>: an association list whose keys are
  strictly ascending, which is the order the iteration \<open>m.begin() .. m.end()\<close> visits.
\<close>

type_synonym det_map = "(real \<times> Detection list) list"

fun m_count :: "det_map \<Rightarrow> real \<Rightarrow> nat" where
  "m_count [] k = 0"
| "m_count ((k', v) # m) k = (if k' = k then 1 else m_count m k)"

fun m_emplace :: "det_map \<Rightarrow> real \<Rightarrow> Detection list \<Rightarrow> det_map" where
  "m_emplace [] k v = [(k, v)]"
| "m_emplace ((k', v') # m) k v =
     (if k = k' then (k', v') # m
      else if k < k' then (k, v) # (k', v') # m
      else (k', v') # m_emplace m k v)"

text \<open>\<open>m[k].push_back(det)\<close>; \<open>operator[]\<close> inserts an empty vector for a new key.\<close>

fun m_push_back :: "det_map \<Rightarrow> real \<Rightarrow> Detection \<Rightarrow> det_map" where
  "m_push_back [] k det = [(k, [det])]"
| "m_push_back ((k', v') # m) k det =
     (if k = k' then (k', v' @ [det]) # m
      else if k < k' then (k, [det]) # (k', v') # m
      else (k', v') # m_push_back m k det)"

text \<open>The first loop of \<open>nms\<close>: \<open>for (int i = 0; i < output[0] && i < 1000; i++)\<close>.\<close>

function nms_collect :: "buffer \<Rightarrow> real \<Rightarrow> nat \<Rightarrow> det_map \<Rightarrow> det_map" where
  "nms_collect output conf_thresh i m =
     (if real i < output 0 \<and> i < 1000 then
        (if output (1 + det_size * i + 4) \<le> conf_thresh
         then nms_collect output conf_thresh (i + 1) m
         else (let det = read_det output (1 + det_size * i);
                   m1 = (if m_count m (class_id det) = 0
                         then m_emplace m (class_id det) [] else m);
                   m2 = m_push_back m1 (class_id det) det
               in nms_collect output conf_thresh (i + 1) m2))
      else m)"
  by pat_completeness auto
termination
  by (relation "measure (\<lambda>(output, conf_thresh, i, m). 1000 - i)") auto

declare nms_collect.simps [simp del]

text \<open>\<open>dets.erase(dets.begin() + n)\<close>.\<close>

definition erase :: "'a list \<Rightarrow> nat \<Rightarrow> 'a list" where
  "erase xs n = take n xs @ drop (Suc n) xs"

text \<open>
  The inner loop \<open>for (size_t n = m + 1; n < dets.size(); ++n)\<close>: after an erase the
  source decrements \<open>n\<close> and the loop header increments it again, so \<open>n\<close> stays.
\<close>

function erase_loop :: "Detection \<Rightarrow> real \<Rightarrow> Detection list \<Rightarrow> nat \<Rightarrow> Detection list" where
  "erase_loop item nms_thresh dets n =
     (if n < length dets then
        (if iou (bbox item) (bbox (dets ! n)) > nms_thresh
         then erase_loop item nms_thresh (erase dets n) n
         else erase_loop item nms_thresh dets (n + 1))
      else dets)"
  by pat_completeness auto
termination
  by (relation "measure (\<lambda>(item, nms_thresh, dets, n). length dets - n)")
     (auto simp: erase_def)

declare erase_loop.simps [simp del]

lemma length_erase_loop:
  "length (erase_loop item nms_thresh dets n) \<le> length dets"
proof (induction item nms_thresh dets n rule: erase_loop.induct)
  case (1 item nms_thresh dets n)
  show ?case
  proof (cases "n < length dets")
    case False
    then show ?thesis by (subst erase_loop.simps) simp
  next
    case True
    show ?thesis
    proof (cases "iou (bbox item) (bbox (dets ! n)) > nms_thresh")
      case True
      with \<open>n < length dets\<close> 1(1) have
        "length (erase_loop item nms_thresh (erase dets n) n) \<le> length (erase dets n)"
        by simp
      moreover have "length (erase dets n) \<le> length dets"
        by (simp add: erase_def)
      ultimately show ?thesis
        using True \<open>n < length dets\<close> by (subst erase_loop.simps) simp
    next
      case False
      with \<open>n < length dets\<close> 1(2) show ?thesis
        by (subst erase_loop.simps) simp
    qed
  qed
qed

lemma erase_loop_measure:
  "m < length dets \<Longrightarrow>
   length (erase_loop item nms_thresh dets (Suc m)) - Suc m < length dets - m"
  using length_erase_loop [of item nms_thresh dets "Suc m"] by arith

text \<open>
  The outer loop \<open>for (size_t m = 0; m < dets.size(); ++m)\<close>.  \<open>item\<close> is a reference
  to \<open>dets[m]\<close>; the inner loop erases behind position \<open>m\<close> only, so the reference
  stays valid and keeps its value.
\<close>

function walk_loop :: "real \<Rightarrow> Detection list \<Rightarrow> nat \<Rightarrow> Detection list \<Rightarrow> Detection list" where
  "walk_loop nms_thresh dets m res =
     (if m < length dets then
        (let item = dets ! m;
             res1 = res @ [item];
             dets1 = erase_loop item nms_thresh dets (m + 1)
         in walk_loop nms_thresh dets1 (m + 1) res1)
      else res)"
  by pat_completeness auto
termination
  by (relation "measure (\<lambda>(nms_thresh, dets, m, res). length dets - m)")
     (auto simp: erase_loop_measure)

declare walk_loop.simps [simp del]

text \<open>The second loop of \<open>nms\<close>, over the map in key order.\<close>

fun group_loop :: "real \<Rightarrow> det_map \<Rightarrow> Detection list \<Rightarrow> Detection list" where
  "group_loop nms_thresh [] res = res"
| "group_loop nms_thresh ((k, v) # m) res =
     group_loop nms_thresh m (walk_loop nms_thresh (std_sort v) 0 res)"

text \<open>\<open>res\<close> is passed by reference and appended to; the model returns its new value.\<close>

definition nms :: "Detection list \<Rightarrow> buffer \<Rightarrow> real \<Rightarrow> real \<Rightarrow> Detection list" where
  "nms res output conf_thresh nms_thresh =
     group_loop nms_thresh (nms_collect output conf_thresh 0 []) res"

text \<open>
  The same two loops with the call \<open>std::sort(dets.begin(), dets.end(), cmp)\<close> left open:
  \<open>srt\<close> stands for whatever the sort of the C++ library in use does to a group.  \<open>nms\<close>
  is the instance with the stable sort.
\<close>

fun group_loop_with_sort ::
  "(Detection list \<Rightarrow> Detection list) \<Rightarrow> real \<Rightarrow> det_map \<Rightarrow> Detection list \<Rightarrow>
   Detection list" where
  "group_loop_with_sort srt nms_thresh [] res = res"
| "group_loop_with_sort srt nms_thresh ((k, v) # m) res =
     group_loop_with_sort srt nms_thresh m (walk_loop nms_thresh (srt v) 0 res)"

definition nms_with_sort ::
  "(Detection list \<Rightarrow> Detection list) \<Rightarrow> Detection list \<Rightarrow> buffer \<Rightarrow> real \<Rightarrow> real \<Rightarrow>
   Detection list" where
  "nms_with_sort srt res output conf_thresh nms_thresh =
     group_loop_with_sort srt nms_thresh (nms_collect output conf_thresh 0 []) res"

section \<open>The decoder entry points\<close>

text \<open>
  The structures of \<open>nvdsinfer.h\<close> that the parsers read or write.  \<open>unsigned int\<close>
  fields are natural numbers.  \<open>d\<close> of \<open>NvDsInferDims\<close> is the field \<open>dims_d\<close>; the array
  has eight entries in the source, so that \<open>d[1]\<close> and \<open>d[2]\<close> always exist, and is a list
  here.  \<open>top\<close> of the object record is \<open>top'\<close>, and the network's \<open>width\<close>, \<open>height\<close>,
  \<open>channels\<close> carry the prefix \<open>net_\<close>.  The \<open>void *buffer\<close> of a layer has two views:
  \<open>buffer\<close> when the source casts it to \<open>float*\<close> and \<open>buffer_int\<close> when it casts it to
  \<open>int*\<close>.
\<close>

record NvDsInferDims =
  numDims :: nat
  dims_d :: "nat list"

record NvDsInferLayerInfo =
  inferDims :: NvDsInferDims
  buffer :: buffer
  buffer_int :: "nat \<Rightarrow> int"

record NvDsInferNetworkInfo =
  net_width :: nat
  net_height :: nat
  net_channels :: nat

record NvDsInferParseDetectionParams =
  numClassesConfigured :: nat

record NvDsInferParseObjectInfo =
  classId :: nat
  left :: real
  top' :: real
  width :: real
  height :: real
  detectionConfidence :: real

text \<open>
  How a call ends: it returns, or an \<open>assert\<close> fails and aborts the process, or it runs
  into undefined behaviour (reading \<open>outputLayersInfo[0]\<close> of an empty vector, dividing
  by zero).
\<close>

datatype 'a outcome = Returns 'a | AssertionFailure | UndefinedBehaviour

definition NUM_CLASSES_YOLO :: nat where
  "NUM_CLASSES_YOLO = 80"

definition NMS_THRESH :: real where
  "NMS_THRESH = 5 / 10"

text \<open>
  \<open>#define CONF_THRESH 0.4\<close> is passed to the \<open>float\<close> parameter \<open>conf_thresh\<close> of
  \<open>nms\<close>: the threshold that the comparisons see is the \<open>float\<close> nearest to \<open>0.4\<close>.
\<close>

definition CONF_THRESH :: real where
  "CONF_THRESH = 13421773 / 33554432"

text \<open>
  The conversion of a \<open>float\<close> to \<open>unsigned int\<close> truncates towards zero.  C++ defines it
  for values above \<open>-1\<close> and below \<open>2^32\<close> only; the model gives \<open>0\<close> for every negative
  value and the integral part for every other one, however large.  The conversion of an
  \<open>int\<close> wraps modulo \<open>2^32\<close>.
\<close>

definition float_to_uint :: "real \<Rightarrow> nat" where
  "float_to_uint x = nat \<lfloor>x\<rfloor>"

definition int_to_uint :: "int \<Rightarrow> nat" where
  "int_to_uint i = nat (i mod 2 ^ 32)"

text \<open>The body of \<open>for (auto& r : res)\<close> in \<open>NvDsInferParseYoloV5\<close> and \<open>NvDsInferParseYoloV4\<close>.\<close>

definition to_object :: "Detection \<Rightarrow> NvDsInferParseObjectInfo" where
  "to_object r =
     \<lparr>classId = float_to_uint (class_id r),
      left = real (float_to_uint (max 0 (b0 (bbox r) - b2 (bbox r) * (1 / 2)))),
      top' = real (float_to_uint (max 0 (b1 (bbox r) - b3 (bbox r) * (1 / 2)))),
      width = real (float_to_uint (b2 (bbox r))),
      height = real (float_to_uint (b3 (bbox r))),
      detectionConfidence = conf r\<rparr>"

fun push_objects :: "Detection list \<Rightarrow> NvDsInferParseObjectInfo list \<Rightarrow> NvDsInferParseObjectInfo list" where
  "push_objects [] objectList = objectList"
| "push_objects (r # res) objectList = push_objects res (objectList @ [to_object r])"

text \<open>
  The comparison of \<open>NUM_CLASSES_YOLO\<close> with \<open>detectionParams.numClassesConfigured\<close> only
  prints a warning; it has no part in the result of any parser.
\<close>

definition NvDsInferParseYoloV5 ::
  "NvDsInferLayerInfo list \<Rightarrow> NvDsInferNetworkInfo \<Rightarrow> NvDsInferParseDetectionParams \<Rightarrow>
   NvDsInferParseObjectInfo list \<Rightarrow> (bool \<times> NvDsInferParseObjectInfo list) outcome" where
  "NvDsInferParseYoloV5 outputLayersInfo networkInfo detectionParams objectList =
     (case outputLayersInfo of
        [] \<Rightarrow> UndefinedBehaviour
      | layer0 # _ \<Rightarrow>
          (let res = nms [] (buffer layer0) CONF_THRESH NMS_THRESH
           in Returns (True, push_objects res objectList)))"

definition NvDsInferParseYoloV4 ::
  "NvDsInferLayerInfo list \<Rightarrow> NvDsInferNetworkInfo \<Rightarrow> NvDsInferParseDetectionParams \<Rightarrow>
   NvDsInferParseObjectInfo list \<Rightarrow> (bool \<times> NvDsInferParseObjectInfo list) outcome" where
  "NvDsInferParseYoloV4 outputLayersInfo networkInfo detectionParams objectList =
     (case outputLayersInfo of
        [] \<Rightarrow> UndefinedBehaviour
      | layer0 # _ \<Rightarrow>
          (let res = nms [] (buffer layer0) CONF_THRESH NMS_THRESH
           in Returns (True, push_objects res objectList)))"

text \<open>
  Modelled from the spec: \<open>clamp\<close> is declared in \<open>trt_utils.h\<close>, which is not among the
  sources.  The spec says that the decoder must "always clamp resulting box edges into
  \<open>[0, networkWidth] \<times> [0, networkHeight]\<close>"; \<open>clamp val minVal maxVal\<close> is the value of
  \<open>val\<close> brought into \<open>[minVal, maxVal]\<close>.
\<close>

definition clamp :: "real \<Rightarrow> real \<Rightarrow> real \<Rightarrow> real" where
  "clamp val minVal maxVal = min maxVal (max minVal val)"

text \<open>
  Modelled from the spec: the macro \<open>DIVUP\<close> is not among the sources.  The spec gives
  \<open>stride = ceil(networkWidth / gridWidth)\<close>.  The callers below treat a zero divisor as
  undefined behaviour before they use it.
\<close>

definition DIVUP :: "nat \<Rightarrow> nat \<Rightarrow> nat" where
  "DIVUP n dv = nat \<lceil>real n / real dv\<rceil>"

text \<open>
  \<open>convertBBox\<close> leaves \<open>classId\<close> and \<open>detectionConfidence\<close> of its result uninitialised;
  \<open>addBBoxProposal\<close> sets both before the record is stored.  The model fills them with \<open>0\<close>.
\<close>

definition convertBBox ::
  "real \<Rightarrow> real \<Rightarrow> real \<Rightarrow> real \<Rightarrow> nat \<Rightarrow> nat \<Rightarrow> nat \<Rightarrow> NvDsInferParseObjectInfo" where
  "convertBBox bx by bw bh stride netW netH =
     (let xCenter = bx * real stride;
          yCenter = by * real stride;
          x0 = xCenter - bw / 2;
          y0 = yCenter - bh / 2;
          x1 = x0 + bw;
          y1 = y0 + bh;
          x0 = clamp x0 0 (real netW);
          y0 = clamp y0 0 (real netH);
          x1 = clamp x1 0 (real netW);
          y1 = clamp y1 0 (real netH)
      in \<lparr>classId = 0,
          left = x0,
          top' = y0,
          width = clamp (x1 - x0) 0 (real netW),
          height = clamp (y1 - y0) 0 (real netH),
          detectionConfidence = 0\<rparr>)"

definition addBBoxProposal ::
  "real \<Rightarrow> real \<Rightarrow> real \<Rightarrow> real \<Rightarrow> nat \<Rightarrow> nat \<Rightarrow> nat \<Rightarrow> int \<Rightarrow> real \<Rightarrow>
   NvDsInferParseObjectInfo list \<Rightarrow> NvDsInferParseObjectInfo list" where
  "addBBoxProposal bx by bw bh stride netW netH maxIndex maxProb binfo =
     (let bbi = convertBBox bx by bw bh stride netW netH
      in if width bbi < 1 \<or> height bbi < 1 then binfo
         else binfo @ [bbi\<lparr>detectionConfidence := maxProb, classId := int_to_uint maxIndex\<rparr>])"

text \<open>
  The loop \<open>for (uint i = 0; i < numOutputClasses; ++i)\<close> that both tensor decoders run for
  every box, with \<open>maxProb = 0.0f\<close> and \<open>maxIndex = -1\<close> at its start.
\<close>

definition class_loop :: "buffer \<Rightarrow> nat \<Rightarrow> nat \<Rightarrow> nat \<Rightarrow> nat \<Rightarrow> real \<times> int" where
  "class_loop detections bbindex numGridCells b numOutputClasses =
     fold (\<lambda>i (maxProb, maxIndex).
             (let prob = detections (bbindex + numGridCells * (b * (5 + numOutputClasses) + (5 + i)))
              in if prob > maxProb then (prob, int i) else (maxProb, maxIndex)))
       [0..<numOutputClasses] (0, - 1)"

text \<open>
  The three nested loops over \<open>y\<close>, \<open>x\<close> and \<open>b\<close>, as folds over the index ranges with
  \<open>binfo\<close> as the state.  The parameter \<open>mask\<close> of the source is \<open>msk\<close> here.
\<close>

definition decodeYoloV3Tensor ::
  "buffer \<Rightarrow> int list \<Rightarrow> real list \<Rightarrow> nat \<Rightarrow> nat \<Rightarrow> nat \<Rightarrow> nat \<Rightarrow> nat \<Rightarrow> nat \<Rightarrow> nat \<Rightarrow>
   NvDsInferParseObjectInfo list" where
  "decodeYoloV3Tensor detections msk anchors gridSizeW gridSizeH stride numBBoxes
       numOutputClasses netW netH =
     fold (\<lambda>y. fold (\<lambda>x. fold (\<lambda>b binfo.
         (let pw = anchors ! nat (msk ! b * 2);
              ph = anchors ! nat (msk ! b * 2 + 1);
              numGridCells = gridSizeH * gridSizeW;
              bbindex = y * gridSizeW + x;
              bx = real x + detections (bbindex + numGridCells * (b * (5 + numOutputClasses) + 0));
              by = real y + detections (bbindex + numGridCells * (b * (5 + numOutputClasses) + 1));
              bw = pw * detections (bbindex + numGridCells * (b * (5 + numOutputClasses) + 2));
              bh = ph * detections (bbindex + numGridCells * (b * (5 + numOutputClasses) + 3));
              objectness = detections (bbindex + numGridCells * (b * (5 + numOutputClasses) + 4));
              (maxProb, maxIndex) = class_loop detections bbindex numGridCells b numOutputClasses;
              maxProb = objectness * maxProb
          in addBBoxProposal bx by bw bh stride netW netH maxIndex maxProb binfo))
       [0..<numBBoxes]) [0..<gridSizeW]) [0..<gridSizeH] []"


definition decodeYoloV2Tensor ::
  "buffer \<Rightarrow> real list \<Rightarrow> nat \<Rightarrow> nat \<Rightarrow> nat \<Rightarrow> nat \<Rightarrow> nat \<Rightarrow> nat \<Rightarrow> nat \<Rightarrow>
   NvDsInferParseObjectInfo list" where
  "decodeYoloV2Tensor detections anchors gridSizeW gridSizeH stride numBBoxes
       numOutputClasses netW netH =
     fold (\<lambda>y. fold (\<lambda>x. fold (\<lambda>b binfo.
         (let pw = anchors ! (b * 2);
              ph = anchors ! (b * 2 + 1);
              numGridCells = gridSizeH * gridSizeW;
              bbindex = y * gridSizeW + x;
              bx = real x + detections (bbindex + numGridCells * (b * (5 + numOutputClasses) + 0));
              by = real y + detections (bbindex + numGridCells * (b * (5 + numOutputClasses) + 1));
              bw = pw * exp (detections (bbindex + numGridCells * (b * (5 + numOutputClasses) + 2)));
              bh = ph * exp (detections (bbindex + numGridCells * (b * (5 + numOutputClasses) + 3)));
              objectness = detections (bbindex + numGridCells * (b * (5 + numOutputClasses) + 4));
              (maxProb, maxIndex) = class_loop detections bbindex numGridCells b numOutputClasses;
              maxProb = objectness * maxProb
          in addBBoxProposal bx by bw bh stride netW netH maxIndex maxProb binfo))
       [0..<numBBoxes]) [0..<gridSizeW]) [0..<gridSizeH] []"

text \<open>
  \<open>std::sort\<close> of the layer pointers by \<open>inferDims.d[1]\<close>, ascending; as for the
  detections, the model takes the stable order for equal keys.
\<close>

definition SortLayers :: "NvDsInferLayerInfo list \<Rightarrow> NvDsInferLayerInfo list" where
  "SortLayers outputLayersInfo = sort_key (\<lambda>l. dims_d (inferDims l) ! 1) outputLayersInfo"

text \<open>
  The loop \<open>for (uint idx = 0; idx < masks.size(); ++idx)\<close> of \<open>NvDsInferParseYoloV3\<close>.
  The flag \<open>asserts\<close> says whether the \<open>assert\<close> macro is active (it is unless the file is
  compiled with \<open>NDEBUG\<close>); the second \<open>DIVUP\<close> is evaluated inside an \<open>assert\<close> only.
\<close>

function v3_layer_loop ::
  "bool \<Rightarrow> NvDsInferLayerInfo list \<Rightarrow> NvDsInferNetworkInfo \<Rightarrow> real list \<Rightarrow> int list list \<Rightarrow>
   nat \<Rightarrow> NvDsInferParseObjectInfo list \<Rightarrow> NvDsInferParseObjectInfo list outcome" where
  "v3_layer_loop asserts sortedLayers networkInfo anchors masks idx objects =
     (if idx < length masks then
        (let layer = sortedLayers ! idx
         in if asserts \<and> numDims (inferDims layer) \<noteq> 3 then AssertionFailure
            else
              (let gridSizeH = dims_d (inferDims layer) ! 1;
                   gridSizeW = dims_d (inferDims layer) ! 2
               in if gridSizeW = 0 then UndefinedBehaviour
                  else
                    (let stride = DIVUP (net_width networkInfo) gridSizeW
                     in if asserts \<and> gridSizeH = 0 then UndefinedBehaviour
                        else if asserts \<and> stride \<noteq> DIVUP (net_height networkInfo) gridSizeH
                        then AssertionFailure
                        else
                          (let outObjs = decodeYoloV3Tensor (buffer layer) (masks ! idx) anchors
                                 gridSizeW gridSizeH stride 3 NUM_CLASSES_YOLO
                                 (net_width networkInfo) (net_height networkInfo)
                           in v3_layer_loop asserts sortedLayers networkInfo anchors masks
                                (idx + 1) (objects @ outObjs)))))
      else Returns objects)"
  by pat_completeness auto
termination
  by (relation "measure (\<lambda>(asserts, sortedLayers, networkInfo, anchors, masks, idx, objects).
        length masks - idx)") auto

declare v3_layer_loop.simps [simp del]

definition NvDsInferParseYoloV3 ::
  "bool \<Rightarrow> NvDsInferLayerInfo list \<Rightarrow> NvDsInferNetworkInfo \<Rightarrow> NvDsInferParseDetectionParams \<Rightarrow>
   NvDsInferParseObjectInfo list \<Rightarrow> real list \<Rightarrow> int list list \<Rightarrow>
   (bool \<times> NvDsInferParseObjectInfo list) outcome" where
  "NvDsInferParseYoloV3 asserts outputLayersInfo networkInfo detectionParams objectList
       anchors masks =
     (let sortedLayers = SortLayers outputLayersInfo
      in if length sortedLayers \<noteq> length masks then Returns (False, objectList)
         else
           (case v3_layer_loop asserts sortedLayers networkInfo anchors masks 0 [] of
              Returns objects \<Rightarrow> Returns (True, objects)
            | AssertionFailure \<Rightarrow> AssertionFailure
            | UndefinedBehaviour \<Rightarrow> UndefinedBehaviour))"

definition NvDsInferParseYoloV2 ::
  "bool \<Rightarrow> NvDsInferLayerInfo list \<Rightarrow> NvDsInferNetworkInfo \<Rightarrow> NvDsInferParseDetectionParams \<Rightarrow>
   NvDsInferParseObjectInfo list \<Rightarrow> (bool \<times> NvDsInferParseObjectInfo list) outcome" where
  "NvDsInferParseYoloV2 asserts outputLayersInfo networkInfo detectionParams objectList =
     (let anchors = [57273 / 100000, 677385 / 1000000, 187446 / 100000, 206253 / 100000,
                     333843 / 100000, 547434 / 100000, 788282 / 100000, 352778 / 100000,
                     977052 / 100000, 916828 / 100000]
      in case outputLayersInfo of
           [] \<Rightarrow> Returns (False, objectList)
         | layer # _ \<Rightarrow>
             (if asserts \<and> numDims (inferDims layer) \<noteq> 3 then AssertionFailure
              else
                (let gridSizeH = dims_d (inferDims layer) ! 1;
                     gridSizeW = dims_d (inferDims layer) ! 2
                 in if gridSizeW = 0 then UndefinedBehaviour
                    else
                      (let stride = DIVUP (net_width networkInfo) gridSizeW
                       in if asserts \<and> gridSizeH = 0 then UndefinedBehaviour
                          else if asserts \<and> stride \<noteq> DIVUP (net_height networkInfo) gridSizeH
                          then AssertionFailure
                          else
                            (let anchors = map (\<lambda>anchor. anchor * real stride) anchors;
                                 objects = decodeYoloV2Tensor (buffer layer) anchors gridSizeW
                                   gridSizeH stride 5 NUM_CLASSES_YOLO
                                   (net_width networkInfo) (net_height networkInfo)
                             in Returns (True, objects))))))"

definition kANCHORS_V3 :: "real list" where
  "kANCHORS_V3 = [10, 13, 16, 30, 33, 23, 30, 61, 62, 45, 59, 119, 116, 90, 156, 198, 373, 326]"

definition kMASKS_V3 :: "int list list" where
  "kMASKS_V3 = [[6, 7, 8], [3, 4, 5], [0, 1, 2]]"

definition NvDsInferParseCustomYoloV3 ::
  "bool \<Rightarrow> NvDsInferLayerInfo list \<Rightarrow> NvDsInferNetworkInfo \<Rightarrow> NvDsInferParseDetectionParams \<Rightarrow>
   NvDsInferParseObjectInfo list \<Rightarrow> (bool \<times> NvDsInferParseObjectInfo list) outcome" where
  "NvDsInferParseCustomYoloV3 asserts outputLayersInfo networkInfo detectionParams objectList =
     NvDsInferParseYoloV3 asserts outputLayersInfo networkInfo detectionParams objectList
       kANCHORS_V3 kMASKS_V3"

definition kANCHORS_V3Tiny :: "real list" where
  "kANCHORS_V3Tiny = [10, 14, 23, 27, 37, 58, 81, 82, 135, 169, 344, 319]"

definition kMASKS_V3Tiny :: "int list list" where
  "kMASKS_V3Tiny = [[3, 4, 5], [1, 2, 3]]"

definition NvDsInferParseCustomYoloV3Tiny ::
  "bool \<Rightarrow> NvDsInferLayerInfo list \<Rightarrow> NvDsInferNetworkInfo \<Rightarrow> NvDsInferParseDetectionParams \<Rightarrow>
   NvDsInferParseObjectInfo list \<Rightarrow> (bool \<times> NvDsInferParseObjectInfo list) outcome" where
  "NvDsInferParseCustomYoloV3Tiny asserts outputLayersInfo networkInfo detectionParams objectList =
     NvDsInferParseYoloV3 asserts outputLayersInfo networkInfo detectionParams objectList
       kANCHORS_V3Tiny kMASKS_V3Tiny"

text \<open>
  The loop \<open>for (int i = 0; (i < keepCount[0]) && (objectList.size() <= topK); ++i)\<close> of
  \<open>NvDsInferParseCustomYoloTLT\<close>; each \<open>continue\<close> is a recursive call with the list
  unchanged.
\<close>

definition topK :: nat where
  "topK = 200"

function tlt_loop ::
  "int \<Rightarrow> buffer \<Rightarrow> buffer \<Rightarrow> buffer \<Rightarrow> NvDsInferNetworkInfo \<Rightarrow> nat \<Rightarrow>
   NvDsInferParseObjectInfo list \<Rightarrow> NvDsInferParseObjectInfo list" where
  "tlt_loop keepCount0 boxes scores cls networkInfo i objectList =
     (if int i < keepCount0 \<and> length objectList \<le> topK then
        (let loc = (\<lambda>k. boxes (i * 4 + k));
             conf0 = scores i;
             cls_id0 = cls i
         in if conf0 > 1001 / 1000
            then tlt_loop keepCount0 boxes scores cls networkInfo (i + 1) objectList
            else if loc 0 < 0 \<or> loc 1 < 0 \<or> loc 2 < 0 \<or> loc 3 < 0
            then tlt_loop keepCount0 boxes scores cls networkInfo (i + 1) objectList
            else if loc 0 > real (net_width networkInfo) \<or> loc 2 > real (net_width networkInfo)
                  \<or> loc 1 > real (net_height networkInfo) \<or> loc 3 > real (net_width networkInfo)
            then tlt_loop keepCount0 boxes scores cls networkInfo (i + 1) objectList
            else if loc 2 < loc 0 \<or> loc 3 < loc 1
            then tlt_loop keepCount0 boxes scores cls networkInfo (i + 1) objectList
            else if loc 3 - loc 1 > real (net_height networkInfo)
                  \<or> loc 2 - loc 0 > real (net_width networkInfo)
            then tlt_loop keepCount0 boxes scores cls networkInfo (i + 1) objectList
            else
              (let curObj = \<lparr>classId = float_to_uint cls_id0,
                              left = loc 0, top' = loc 1,
                              width = loc 2 - loc 0, height = loc 3 - loc 1,
                              detectionConfidence = conf0\<rparr>
               in tlt_loop keepCount0 boxes scores cls networkInfo (i + 1)
                    (objectList @ [curObj])))
      else objectList)"
  by pat_completeness auto
termination
  by (relation "measure (\<lambda>(keepCount0, boxes, scores, cls, networkInfo, i, objectList).
        nat (keepCount0 - int i))") auto

declare tlt_loop.simps [simp del]

definition NvDsInferParseCustomYoloTLT ::
  "NvDsInferLayerInfo list \<Rightarrow> NvDsInferNetworkInfo \<Rightarrow> NvDsInferParseDetectionParams \<Rightarrow>
   NvDsInferParseObjectInfo list \<Rightarrow> (bool \<times> NvDsInferParseObjectInfo list) outcome" where
  "NvDsInferParseCustomYoloTLT outputLayersInfo networkInfo detectionParams objectList =
     (if length outputLayersInfo \<noteq> 4 then Returns (False, objectList)
      else
        (let keepCount = buffer_int (outputLayersInfo ! 0);
             boxes = buffer (outputLayersInfo ! 1);
             scores = buffer (outputLayersInfo ! 2);
             cls = buffer (outputLayersInfo ! 3)
         in Returns (True, tlt_loop (keepCount 0) boxes scores cls networkInfo 0 objectList)))"

definition NvDsInferParseCustomYoloV5 ::
  "NvDsInferLayerInfo list \<Rightarrow> NvDsInferNetworkInfo \<Rightarrow> NvDsInferParseDetectionParams \<Rightarrow>
   NvDsInferParseObjectInfo list \<Rightarrow> (bool \<times> NvDsInferParseObjectInfo list) outcome" where
  "NvDsInferParseCustomYoloV5 = NvDsInferParseYoloV5"

definition NvDsInferParseCustomYoloV4 ::
  "NvDsInferLayerInfo list \<Rightarrow> NvDsInferNetworkInfo \<Rightarrow> NvDsInferParseDetectionParams \<Rightarrow>
   NvDsInferParseObjectInfo list \<Rightarrow> (bool \<times> NvDsInferParseObjectInfo list) outcome" where
  "NvDsInferParseCustomYoloV4 = NvDsInferParseYoloV4"

definition NvDsInferParseCustomYoloV2 ::
  "bool \<Rightarrow> NvDsInferLayerInfo list \<Rightarrow> NvDsInferNetworkInfo \<Rightarrow> NvDsInferParseDetectionParams \<Rightarrow>
   NvDsInferParseObjectInfo list \<Rightarrow> (bool \<times> NvDsInferParseObjectInfo list) outcome" where
  "NvDsInferParseCustomYoloV2 = NvDsInferParseYoloV2"

definition NvDsInferParseCustomYoloV2Tiny ::
  "bool \<Rightarrow> NvDsInferLayerInfo list \<Rightarrow> NvDsInferNetworkInfo \<Rightarrow> NvDsInferParseDetectionParams \<Rightarrow>
   NvDsInferParseObjectInfo list \<Rightarrow> (bool \<times> NvDsInferParseObjectInfo list) outcome" where
  "NvDsInferParseCustomYoloV2Tiny = NvDsInferParseYoloV2"

section \<open>The suppression engine as the specification describes it\<close>

text \<open>
  The candidates of a buffer are the tuples that the first loop of \<open>nms\<close> visits:
  \<open>output[0]\<close> says how many there are, and the loop never goes beyond the first 1000.
\<close>

definition det_count :: "buffer \<Rightarrow> nat" where
  "det_count output = (if output 0 \<le> 0 then 0 else min 1000 (nat \<lceil>output 0\<rceil>))"

definition candidates :: "buffer \<Rightarrow> Detection list" where
  "candidates output = map (\<lambda>i. read_det output (1 + det_size * i)) [0..<det_count output]"

text \<open>
  Step 4 of the specification: take the first candidate of the sorted group, emit it,
  remove every other candidate whose IoU with it exceeds the threshold, repeat.
\<close>

function greedy :: "real \<Rightarrow> Detection list \<Rightarrow> Detection list" where
  "greedy nms_thresh [] = []"
| "greedy nms_thresh (x # xs) =
     x # greedy nms_thresh (filter (\<lambda>y. \<not> iou (bbox x) (bbox y) > nms_thresh) xs)"
  by pat_completeness auto
termination
  by (relation "measure (\<lambda>(nms_thresh, xs). length xs)") (auto simp: less_Suc_eq_le)

text \<open>The class ids that occur, in ascending order, each once.\<close>

definition class_keys :: "Detection list \<Rightarrow> real list" where
  "class_keys ds = sorted_list_of_set (class_id ` set ds)"

text \<open>Step 3: a stable sort by descending confidence.\<close>

definition sort_desc :: "Detection list \<Rightarrow> Detection list" where
  "sort_desc ds = sort_key (\<lambda>d. - conf d) ds"

text \<open>Steps 1 to 5 of the specification, in its words.\<close>

definition nms_spec :: "Detection list \<Rightarrow> real \<Rightarrow> real \<Rightarrow> Detection list" where
  "nms_spec cands conf_thresh nms_thresh =
     (let survivors = filter (\<lambda>d. \<not> conf d \<le> conf_thresh) cands;
          groups = map (\<lambda>k. filter (\<lambda>d. class_id d = k) survivors) (class_keys survivors);
          sorted_groups = map sort_desc groups
      in concat (map (greedy nms_thresh) sorted_groups))"


text \<open>Auxiliary notions for the proofs: one insertion into the map, and the map that
  the first loop builds from a list of survivors.\<close>

definition push :: "det_map \<Rightarrow> Detection \<Rightarrow> det_map" where
  "push m det = m_push_back (if m_count m (class_id det) = 0
                         then m_emplace m (class_id det) [] else m) (class_id det) det"

definition grouped :: "Detection list \<Rightarrow> det_map" where
  "grouped ds = map (\<lambda>k. (k, filter (\<lambda>d. class_id d = k) ds)) (class_keys ds)"

text \<open>
  What the C++ standard requires of \<open>std::sort\<close> with the comparison \<open>cmp\<close>: the result
  holds the elements of the argument, and no element is strictly before an earlier one.
  The order of elements with equal confidence is left open.
\<close>

definition sorts_by_cmp :: "(Detection list \<Rightarrow> Detection list) \<Rightarrow> bool" where
  "sorts_by_cmp srt =
     (\<forall>xs. mset (srt xs) = mset xs \<and> sorted_wrt (\<lambda>a b. \<not> cmp b a) (srt xs))"

text \<open>
  No two candidates of a buffer that are above the confidence threshold and of the same
  class have the same confidence: then the order that \<open>std::sort\<close> gives to a group is
  determined.
\<close>

definition no_ties :: "real \<Rightarrow> buffer \<Rightarrow> bool" where
  "no_ties conf_thresh output =
     distinct (map (\<lambda>d. (class_id d, conf d))
       (filter (\<lambda>d. \<not> conf d \<le> conf_thresh) (candidates output)))"

section \<open>Properties of emitted detections\<close>

text \<open>The detections a call hands to its caller: those of a successful return.\<close>

definition decoded :: "(bool \<times> NvDsInferParseObjectInfo list) outcome \<Rightarrow> NvDsInferParseObjectInfo list" where
  "decoded r =
     (case r of
        Returns (ok, objs) \<Rightarrow> (if ok then objs else [])
      | AssertionFailure \<Rightarrow> []
      | UndefinedBehaviour \<Rightarrow> [])"

text \<open>What \<open>addBBoxProposal\<close> guarantees of a box it stores.\<close>

definition grid_box_ok :: "nat \<Rightarrow> nat \<Rightarrow> NvDsInferParseObjectInfo \<Rightarrow> bool" where
  "grid_box_ok netW netH obj =
     (0 \<le> left obj \<and> left obj \<le> real netW \<and> 0 \<le> top' obj \<and> top' obj \<le> real netH \<and>
      1 \<le> width obj \<and> width obj \<le> real netW \<and>
      1 \<le> height obj \<and> height obj \<le> real netH)"

text \<open>What the loop of \<open>NvDsInferParseYoloV5\<close> guarantees of an object it appends.\<close>

definition v5_box_ok :: "NvDsInferParseObjectInfo \<Rightarrow> bool" where
  "v5_box_ok obj =
     (0 \<le> left obj \<and> 0 \<le> top' obj \<and> 0 \<le> width obj \<and> 0 \<le> height obj \<and>
      CONF_THRESH < detectionConfidence obj)"

text \<open>The five tests of \<open>NvDsInferParseCustomYoloTLT\<close> on entry \<open>i\<close>, the object it builds
  from an entry, and what the tests guarantee of it.\<close>

definition tlt_accept :: "NvDsInferNetworkInfo \<Rightarrow> buffer \<Rightarrow> buffer \<Rightarrow> nat \<Rightarrow> bool" where
  "tlt_accept networkInfo boxes scores i =
     (let loc = (\<lambda>k. boxes (i * 4 + k))
      in \<not> scores i > 1001 / 1000 \<and>
         \<not> (loc 0 < 0 \<or> loc 1 < 0 \<or> loc 2 < 0 \<or> loc 3 < 0) \<and>
         \<not> (loc 0 > real (net_width networkInfo) \<or> loc 2 > real (net_width networkInfo)
             \<or> loc 1 > real (net_height networkInfo) \<or> loc 3 > real (net_width networkInfo)) \<and>
         \<not> (loc 2 < loc 0 \<or> loc 3 < loc 1) \<and>
         \<not> (loc 3 - loc 1 > real (net_height networkInfo)
             \<or> loc 2 - loc 0 > real (net_width networkInfo)))"

definition tlt_obj :: "buffer \<Rightarrow> buffer \<Rightarrow> buffer \<Rightarrow> nat \<Rightarrow> NvDsInferParseObjectInfo" where
  "tlt_obj boxes scores cls i =
     \<lparr>classId = float_to_uint (cls i),
      left = boxes (i * 4 + 0), top' = boxes (i * 4 + 1),
      width = boxes (i * 4 + 2) - boxes (i * 4 + 0),
      height = boxes (i * 4 + 3) - boxes (i * 4 + 1),
      detectionConfidence = scores i\<rparr>"

definition tlt_box_ok :: "NvDsInferNetworkInfo \<Rightarrow> NvDsInferParseObjectInfo \<Rightarrow> bool" where
  "tlt_box_ok networkInfo obj =
     (0 \<le> left obj \<and> left obj \<le> real (net_width networkInfo) \<and>
      0 \<le> top' obj \<and> top' obj \<le> real (net_height networkInfo) \<and>
      0 \<le> width obj \<and> width obj \<le> real (net_width networkInfo) \<and>
      0 \<le> height obj \<and> height obj \<le> real (net_height networkInfo) \<and>
      detectionConfidence obj \<le> 1001 / 1000)"

text \<open>
  The objects of the entries with an index below \<open>keepCount\<close> that pass the five tests, in
  the order of the index; and what the loop of \<open>NvDsInferParseCustomYoloTLT\<close> puts behind
  the entries that the caller's list held.
\<close>

definition tlt_accepted ::
  "NvDsInferLayerInfo list \<Rightarrow> NvDsInferNetworkInfo \<Rightarrow> NvDsInferParseObjectInfo list" where
  "tlt_accepted outputLayersInfo networkInfo =
     map (tlt_obj (buffer (outputLayersInfo ! 1)) (buffer (outputLayersInfo ! 2))
            (buffer (outputLayersInfo ! 3)))
       (filter (tlt_accept networkInfo (buffer (outputLayersInfo ! 1))
                  (buffer (outputLayersInfo ! 2)))
          [0..<nat (buffer_int (outputLayersInfo ! 0) 0)])"

definition tlt_emitted ::
  "NvDsInferLayerInfo list \<Rightarrow> NvDsInferNetworkInfo \<Rightarrow> NvDsInferParseObjectInfo list \<Rightarrow>
   NvDsInferParseObjectInfo list" where
  "tlt_emitted outputLayersInfo networkInfo objectList =
     drop (length objectList)
       (tlt_loop (buffer_int (outputLayersInfo ! 0) 0) (buffer (outputLayersInfo ! 1))
          (buffer (outputLayersInfo ! 2)) (buffer (outputLayersInfo ! 3)) networkInfo 0
          objectList)"




text \<open>The two strides that \<open>NvDsInferParseYoloV3\<close> computes for a layer differ.\<close>

definition stride_disagrees :: "NvDsInferNetworkInfo \<Rightarrow> NvDsInferLayerInfo \<Rightarrow> bool" where
  "stride_disagrees networkInfo layer =
     (DIVUP (net_width networkInfo) (dims_d (inferDims layer) ! 2) \<noteq>
      DIVUP (net_height networkInfo) (dims_d (inferDims layer) ! 1))"

section \<open>Concrete inputs\<close>

text \<open>A buffer that holds the given floats and zeros behind them.\<close>

definition buffer_of :: "real list \<Rightarrow> buffer" where
  "buffer_of xs = (\<lambda>i. if i < length xs then xs ! i else 0)"

text \<open>
  Four candidates of class \<open>0\<close>, in descending confidence: \<open>A\<close>, \<open>B\<close>, \<open>C\<close>, \<open>D\<close>, squares
  of side \<open>10\<close>.  Their IoUs are \<open>2/3\<close> for \<open>A\<close> and \<open>B\<close>, \<open>17/23\<close> for \<open>B\<close> with \<open>C\<close> and
  with \<open>D\<close>, \<open>17/33\<close> for \<open>A\<close> with \<open>C\<close> and with \<open>D\<close>, and \<open>7/13\<close> for \<open>C\<close> and \<open>D\<close>.
\<close>

definition four_boxes :: buffer where
  "four_boxes = buffer_of [4,
     5, 7, 10, 10, 9 / 10, 0,
     5, 5, 10, 10, 8 / 10, 0,
     7 / 2, 5, 10, 10, 7 / 10, 0,
     13 / 2, 5, 10, 10, 6 / 10, 0]"

text \<open>
  Four candidates of class \<open>0\<close>, squares of side \<open>10\<close>: \<open>X\<close> and \<open>Y\<close> with the same
  confidence \<open>9/10\<close>, \<open>W\<close> with \<open>8/10\<close> and \<open>Z\<close>, at the place of \<open>X\<close>, with \<open>5/10\<close>.  The
  IoU of \<open>X\<close> with \<open>Y\<close> and with \<open>W\<close> is \<open>2/3\<close>, that of \<open>Y\<close> with \<open>W\<close> is \<open>3/7\<close>.
\<close>

definition tied_boxes :: buffer where
  "tied_boxes = buffer_of [4,
     7, 5, 10, 10, 9 / 10, 0,
     5, 5, 10, 10, 9 / 10, 0,
     9, 5, 10, 10, 8 / 10, 0,
     7, 5, 10, 10, 5 / 10, 0]"

text \<open>
  A sort that meets the requirement of the standard and orders equal confidences by the
  length of the list: as they come for an even length, reversed for an odd one.
\<close>

definition parity_sort :: "Detection list \<Rightarrow> Detection list" where
  "parity_sort xs = (if even (length xs) then std_sort xs else std_sort (rev xs))"

definition net416 :: NvDsInferNetworkInfo where
  "net416 = \<lparr>net_width = 416, net_height = 416, net_channels = 3\<rparr>"

definition params80 :: NvDsInferParseDetectionParams where
  "params80 = \<lparr>numClassesConfigured = 80\<rparr>"

text \<open>
  A \<open>255 \<times> 1 \<times> 1\<close> tensor: the first box of the only cell has offsets \<open>1/2\<close>, scales \<open>1\<close>,
  objectness \<open>-1\<close> and score \<open>1/2\<close> for class \<open>0\<close>; everything else is \<open>0\<close>.
\<close>

definition negative_objectness :: buffer where
  "negative_objectness = buffer_of [1 / 2, 1 / 2, 1, 1, - 1, 1 / 2]"

text \<open>A layer with a \<open>13 \<times> 26\<close> grid: on a \<open>416 \<times> 416\<close> network the stride is \<open>16\<close> by
  the width and \<open>32\<close> by the height.\<close>

definition layer_13x26 :: NvDsInferLayerInfo where
  "layer_13x26 = \<lparr>inferDims = \<lparr>numDims = 3, dims_d = [255, 13, 26]\<rparr>,
      buffer = (\<lambda>i. 0), buffer_int = (\<lambda>i. 0)\<rparr>"

text \<open>The four output layers of the proposal-passthrough network.\<close>

definition tlt_layers :: "int \<Rightarrow> buffer \<Rightarrow> buffer \<Rightarrow> buffer \<Rightarrow> NvDsInferLayerInfo list" where
  "tlt_layers keepCount boxes scores cls =
     [\<lparr>inferDims = \<lparr>numDims = 1, dims_d = [1]\<rparr>, buffer = (\<lambda>i. 0), buffer_int = (\<lambda>i. keepCount)\<rparr>,
      \<lparr>inferDims = \<lparr>numDims = 1, dims_d = [1]\<rparr>, buffer = boxes, buffer_int = (\<lambda>i. 0)\<rparr>,
      \<lparr>inferDims = \<lparr>numDims = 1, dims_d = [1]\<rparr>, buffer = scores, buffer_int = (\<lambda>i. 0)\<rparr>,
      \<lparr>inferDims = \<lparr>numDims = 1, dims_d = [1]\<rparr>, buffer = cls, buffer_int = (\<lambda>i. 0)\<rparr>]"

definition net200x100 :: NvDsInferNetworkInfo where
  "net200x100 = \<lparr>net_width = 200, net_height = 100, net_channels = 3\<rparr>"

text \<open>Every entry is the box \<open>(0, 0, 10, 10)\<close>; only entry \<open>201\<close> has a valid score.\<close>

definition same_boxes :: buffer where
  "same_boxes = (\<lambda>k. if k mod 4 < 2 then 0 else 10)"


text \<open>Entries that are all valid: the box \<open>(0, 0, 10, 10)\<close> with score \<open>1/2\<close>.\<close>

definition valid_score :: buffer where
  "valid_score = (\<lambda>i. 1 / 2)"


definition old_object :: NvDsInferParseObjectInfo where
  "old_object = \<lparr>classId = 1, left = 1, top' = 2, width = 3, height = 4,
      detectionConfidence = 1 / 2\<rparr>"

section \<open>The suppression engine refines its specification\<close>

text \<open>
  The general properties of \<open>nms\<close> in this section and the next are proved without
  unfolding \<open>iou\<close>: they use of it only that it is a function of the two boxes.  Its
  values are computed only where \<open>nms\<close> is evaluated at the four boxes.
\<close>

lemma loop_guard: "(real i < out 0 \<and> i < 1000) = (i < det_count out)"
proof -
  have "(i < nat \<lceil>out 0\<rceil>) = (real i < out 0)"
    by (simp add: zless_nat_eq_int_zless less_ceiling_iff)
  then show ?thesis
    unfolding det_count_def by auto
qed

lemma push_back_emplace: "m_push_back (m_emplace m k []) k det = m_push_back m k det"
  by (induction m) auto

lemma push_eq: "push m det = m_push_back m (class_id det) det"
  by (simp add: push_def push_back_emplace)

lemma conf_read_det: "conf (read_det out p) = out (p + 4)"
  by (simp add: read_det_def)

lemma nms_collect_eq:
  "i \<le> det_count out \<Longrightarrow>
   nms_collect out conf_thresh i m =
     fold (\<lambda>det m. m_push_back m (class_id det) det)
       (filter (\<lambda>d. \<not> conf d \<le> conf_thresh)
          (map (\<lambda>i. read_det out (1 + det_size * i)) [i..<det_count out])) m"
proof (induction out conf_thresh i m rule: nms_collect.induct)
  case (1 out conf_thresh i m)
  show ?case
  proof (cases "i < det_count out")
    case False
    with 1(3) have "i = det_count out" by simp
    then show ?thesis
      by (subst nms_collect.simps) (simp add: loop_guard)
  next
    case True
    then have g: "real i < out 0 \<and> i < 1000" by (simp add: loop_guard)
    from True have u: "[i..<det_count out] = i # [i + 1..<det_count out]"
      by (simp add: upt_conv_Cons)
    from True have le: "i + 1 \<le> det_count out" by simp
    show ?thesis
    proof (cases "out (1 + det_size * i + 4) \<le> conf_thresh")
      case True
      with 1(1) [OF g True le] g show ?thesis
        by (subst nms_collect.simps) (simp add: u conf_read_det)
    next
      case False
      define det where "det = read_det out (1 + det_size * i)"
      have IH: "nms_collect out conf_thresh (i + 1) (push m det) =
          fold (\<lambda>det m. m_push_back m (class_id det) det)
            (filter (\<lambda>d. \<not> conf d \<le> conf_thresh)
               (map (\<lambda>i. read_det out (1 + det_size * i)) [i + 1..<det_count out]))
            (push m det)"
        using 1(2) [OF g False refl refl refl le] unfolding push_def det_def .
      have step: "nms_collect out conf_thresh i m =
          nms_collect out conf_thresh (i + 1) (push m det)"
        by (subst nms_collect.simps)
           (simp only: g False if_True if_False Let_def push_def det_def simp_thms)
      have c: "\<not> conf det \<le> conf_thresh"
        using False by (simp add: det_def conf_read_det)
      show ?thesis
        unfolding step IH u using c by (simp add: det_def push_eq)
    qed
  qed
qed


lemma m_push_back_keyed:
  "sorted ks \<Longrightarrow> distinct ks \<Longrightarrow> (k0 \<notin> set ks \<Longrightarrow> g k0 = []) \<Longrightarrow>
   m_push_back (map (\<lambda>k. (k, g k)) ks) k0 det =
     map (\<lambda>k. (k, if k = k0 then g k @ [det] else g k))
       (if k0 \<in> set ks then ks else insort k0 ks)"
proof (induction ks)
  case Nil
  then show ?case by simp
next
  case (Cons k ks)
  show ?case
  proof (cases "k0 = k")
    case True
    with Cons.prems show ?thesis by auto
  next
    case False
    show ?thesis
    proof (cases "k0 < k")
      case True
      with Cons.prems have "k0 \<notin> set (k # ks)" by auto
      with True False Cons.prems show ?thesis by auto
    next
      case ge: False
      with False have "k < k0" by simp
      with Cons False show ?thesis by auto
    qed
  qed
qed

lemma class_keys_snoc:
  "class_keys (ds @ [det]) =
     (if class_id det \<in> set (class_keys ds) then class_keys ds
      else insort (class_id det) (class_keys ds))"
proof (cases "class_id det \<in> class_id ` set ds")
  case True
  then have "insert (class_id det) (class_id ` set ds) = class_id ` set ds" by auto
  with True show ?thesis by (simp add: class_keys_def)
next
  case False
  then show ?thesis by (simp add: class_keys_def)
qed

lemma grouped_snoc: "m_push_back (grouped ds) (class_id det) det = grouped (ds @ [det])"
proof -
  have s: "sorted (class_keys ds)" and d: "distinct (class_keys ds)"
    by (simp_all add: class_keys_def)
  have e: "class_id det \<notin> set (class_keys ds) \<Longrightarrow>
      filter (\<lambda>d. class_id d = class_id det) ds = []"
  proof -
    assume "class_id det \<notin> set (class_keys ds)"
    then have "class_id det \<notin> class_id ` set ds"
      by (simp add: class_keys_def)
    then have "\<And>x. x \<in> set ds \<Longrightarrow> class_id x \<noteq> class_id det"
      by (metis image_eqI)
    then show ?thesis
      by (simp add: filter_empty_conv)
  qed
  have "m_push_back (grouped ds) (class_id det) det =
      map (\<lambda>k. (k, if k = class_id det
                     then filter (\<lambda>d. class_id d = k) ds @ [det]
                     else filter (\<lambda>d. class_id d = k) ds))
        (class_keys (ds @ [det]))"
    unfolding grouped_def class_keys_snoc
    using m_push_back_keyed [of "class_keys ds" "class_id det"
        "\<lambda>k. filter (\<lambda>d. class_id d = k) ds" det, OF s d e]
    by simp
  also have "\<dots> = grouped (ds @ [det])"
    unfolding grouped_def by (rule map_cong) auto
  finally show ?thesis .
qed

lemma fold_push_grouped:
  "fold (\<lambda>det m. m_push_back m (class_id det) det) ds [] = grouped ds"
proof (induction ds rule: rev_induct)
  case Nil
  then show ?case by (simp add: grouped_def class_keys_def)
next
  case (snoc det ds)
  then show ?case by (simp add: grouped_snoc)
qed

lemma nms_collect_grouped:
  "nms_collect out conf_thresh 0 [] =
     grouped (filter (\<lambda>d. \<not> conf d \<le> conf_thresh) (candidates out))"
  by (simp add: nms_collect_eq fold_push_grouped candidates_def)

lemma erase_loop_eq:
  "erase_loop item nms_thresh dets n =
     take n dets @ filter (\<lambda>y. \<not> iou (bbox item) (bbox y) > nms_thresh) (drop n dets)"
proof (induction item nms_thresh dets n rule: erase_loop.induct)
  case (1 item nms_thresh dets n)
  show ?case
  proof (cases "n < length dets")
    case False
    then show ?thesis by (subst erase_loop.simps) simp
  next
    case True
    then have d: "drop n dets = dets ! n # drop (Suc n) dets"
      by (simp add: Cons_nth_drop_Suc)
    show ?thesis
    proof (cases "iou (bbox item) (bbox (dets ! n)) > nms_thresh")
      case gt: True
      have "erase_loop item nms_thresh dets n = erase_loop item nms_thresh (erase dets n) n"
        using True gt by (subst erase_loop.simps) simp
      also have "\<dots> = take n (erase dets n) @
          filter (\<lambda>y. \<not> iou (bbox item) (bbox y) > nms_thresh) (drop n (erase dets n))"
        using 1(1) [OF True gt] .
      also have "take n (erase dets n) = take n dets"
        using True by (simp add: erase_def)
      also have "drop n (erase dets n) = drop (Suc n) dets"
        using True by (simp add: erase_def)
      finally show ?thesis using gt by (simp add: d)
    next
      case le: False
      have "erase_loop item nms_thresh dets n = erase_loop item nms_thresh dets (n + 1)"
        using True le by (subst erase_loop.simps) simp
      also have "\<dots> = take (n + 1) dets @
          filter (\<lambda>y. \<not> iou (bbox item) (bbox y) > nms_thresh) (drop (n + 1) dets)"
        using 1(2) [OF True le] .
      finally show ?thesis using le True by (simp add: d take_Suc_conv_app_nth)
    qed
  qed
qed

lemma walk_loop_eq:
  "m \<le> length dets \<Longrightarrow>
   walk_loop nms_thresh dets m res = res @ greedy nms_thresh (drop m dets)"
proof (induction nms_thresh dets m res rule: walk_loop.induct)
  case (1 nms_thresh dets m res)
  show ?case
  proof (cases "m < length dets")
    case False
    then show ?thesis by (subst walk_loop.simps) simp
  next
    case True
    define dets1 where "dets1 = erase_loop (dets ! m) nms_thresh dets (m + 1)"
    have d1: "dets1 = take (m + 1) dets @
        filter (\<lambda>y. \<not> iou (bbox (dets ! m)) (bbox y) > nms_thresh) (drop (m + 1) dets)"
      by (simp add: dets1_def erase_loop_eq)
    have len: "m + 1 \<le> length dets1"
      using True by (simp add: d1)
    have dr: "drop (Suc m) dets1 =
        filter (\<lambda>y. \<not> iou (bbox (dets ! m)) (bbox y) > nms_thresh) (drop (Suc m) dets)"
      using True by (simp add: d1)
    have "walk_loop nms_thresh dets m res =
        walk_loop nms_thresh dets1 (m + 1) (res @ [dets ! m])"
      using True by (subst walk_loop.simps) (simp add: dets1_def Let_def)
    also have "\<dots> = (res @ [dets ! m]) @ greedy nms_thresh (drop (m + 1) dets1)"
      using 1(1) [OF True refl refl dets1_def len] .
    finally show ?thesis
      using True by (simp add: dr Cons_nth_drop_Suc [symmetric])
  qed
qed

lemma sort_insert_eq: "sort_insert a xs = insort_key (\<lambda>d. - conf d) a xs"
  by (induction xs) (auto simp: cmp_def)

lemma std_sort_eq: "std_sort xs = sort_desc xs"
  by (induction xs) (simp_all add: sort_desc_def sort_insert_eq)

lemma group_loop_eq:
  "group_loop nms_thresh m res =
     res @ concat (map (\<lambda>(k, v). greedy nms_thresh (sort_desc v)) m)"
  by (induction m arbitrary: res) (auto simp: walk_loop_eq std_sort_eq)

lemma nms_eq_spec:
  "nms res out conf_thresh nms_thresh =
     res @ nms_spec (candidates out) conf_thresh nms_thresh"
  by (simp add: nms_def nms_collect_grouped group_loop_eq grouped_def nms_spec_def
      Let_def comp_def)


section \<open>Thresholds and repeated suppression\<close>

lemma greedy_subset: "set (greedy nms_thresh xs) \<subseteq> set xs"
  by (induction nms_thresh xs rule: greedy.induct) auto

lemma in_greedyD: "y \<in> set (greedy nms_thresh xs) \<Longrightarrow> y \<in> set xs"
  using greedy_subset by blast





lemma greedy_filter_conf:
  "sorted (map (\<lambda>d. - conf d) xs) \<Longrightarrow>
   greedy nms_thresh (filter (\<lambda>d. \<not> conf d \<le> c) xs) =
     filter (\<lambda>d. \<not> conf d \<le> c) (greedy nms_thresh xs)"
proof (induction nms_thresh xs rule: greedy.induct)
  case (1 nms_thresh)
  then show ?case by simp
next
  case (2 nms_thresh x xs)
  let ?Q = "\<lambda>y. \<not> iou (bbox x) (bbox y) > nms_thresh"
  let ?P = "\<lambda>d. \<not> conf d \<le> c"
  from "2.prems" have s: "sorted (map (\<lambda>d. - conf d) (filter ?Q xs))"
    by (simp add: sorted_filter)
  have IH: "greedy nms_thresh (filter ?P (filter ?Q xs)) =
      filter ?P (greedy nms_thresh (filter ?Q xs))"
    using "2.IH" [OF s] .
  show ?case
  proof (cases "?P x")
    case True
    have "filter ?Q (filter ?P xs) = filter ?P (filter ?Q xs)"
      by (simp add: conj_commute)
    with True IH show ?thesis by simp
  next
    case False
    with "2.prems" have "\<forall>y\<in>set xs. \<not> ?P y" by auto
    then have a: "filter ?P xs = []"
      by (simp add: filter_empty_conv)
    have "\<forall>y\<in>set (greedy nms_thresh (filter ?Q xs)). \<not> ?P y"
    proof
      fix y
      assume "y \<in> set (greedy nms_thresh (filter ?Q xs))"
      then have "y \<in> set (filter ?Q xs)" by (rule in_greedyD)
      with \<open>\<forall>y\<in>set xs. \<not> ?P y\<close> show "\<not> ?P y" by simp
    qed
    then have b: "filter ?P (greedy nms_thresh (filter ?Q xs)) = []"
      by (simp add: filter_empty_conv)
    from False a b show ?thesis by simp
  qed
qed

lemma sorted_sort_desc: "sorted (map (\<lambda>d. - conf d) (sort_desc xs))"
  by (simp add: sort_desc_def)

lemma filter_sort_desc: "filter P (sort_desc xs) = sort_desc (filter P xs)"
  by (simp add: sort_desc_def filter_sort)

lemma class_keys_filter:
  "class_keys (filter P ds) = filter (\<lambda>k. k \<in> set (class_keys (filter P ds))) (class_keys ds)"
proof (rule sorted_distinct_set_unique)
  show "sorted (class_keys (filter P ds))" "distinct (class_keys (filter P ds))"
    by (simp_all add: class_keys_def)
  show "sorted (filter (\<lambda>k. k \<in> set (class_keys (filter P ds))) (class_keys ds))"
    by (rule sorted_wrt_filter) (simp add: class_keys_def)
  show "distinct (filter (\<lambda>k. k \<in> set (class_keys (filter P ds))) (class_keys ds))"
    by (simp add: class_keys_def)
  show "set (class_keys (filter P ds)) =
      set (filter (\<lambda>k. k \<in> set (class_keys (filter P ds))) (class_keys ds))"
    by (auto simp: class_keys_def)
qed

lemma concat_map_filter_empty:
  "\<forall>k\<in>set ks. \<not> Q k \<longrightarrow> F k = [] \<Longrightarrow>
   concat (map F (filter Q ks)) = concat (map F ks)"
proof (induction ks)
  case Nil
  then show ?case by simp
next
  case (Cons k ks)
  then have IH: "concat (map F (filter Q ks)) = concat (map F ks)" by simp
  show ?case
  proof (cases "Q k")
    case True
    with IH show ?thesis by simp
  next
    case False
    with Cons.prems have "F k = []" by simp
    with False IH show ?thesis by simp
  qed
qed

lemma nms_spec_conf_filter:
  assumes "c1 \<le> c2"
  shows "nms_spec cands c2 nms_thresh =
     filter (\<lambda>d. \<not> conf d \<le> c2) (nms_spec cands c1 nms_thresh)"
proof -
  let ?P2 = "\<lambda>d. \<not> conf d \<le> c2"
  define S1 where "S1 = filter (\<lambda>d. \<not> conf d \<le> c1) cands"
  define S2 where "S2 = filter ?P2 cands"
  define F2 where "F2 = (\<lambda>k. greedy nms_thresh (sort_desc (filter (\<lambda>d. class_id d = k) S2)))"
  have S2: "S2 = filter ?P2 S1"
    unfolding S1_def S2_def filter_filter
    by (rule filter_cong [OF refl]) (use assms in auto)
  have F: "filter ?P2 (greedy nms_thresh (sort_desc (filter (\<lambda>d. class_id d = k) S1))) = F2 k"
    for k
  proof -
    have "filter ?P2 (filter (\<lambda>d. class_id d = k) S1) = filter (\<lambda>d. class_id d = k) S2"
      unfolding S2 by (simp add: conj_commute)
    then show ?thesis
      unfolding F2_def
      by (simp add: greedy_filter_conf [OF sorted_sort_desc, symmetric] filter_sort_desc)
  qed
  have e: "F2 k = []" if "k \<notin> set (class_keys S2)" for k
  proof -
    from that have "k \<notin> class_id ` set S2" by (simp add: class_keys_def)
    then have "\<And>x. x \<in> set S2 \<Longrightarrow> class_id x \<noteq> k" by (metis image_eqI)
    then have "filter (\<lambda>d. class_id d = k) S2 = []" by (simp add: filter_empty_conv)
    then show ?thesis by (simp add: F2_def sort_desc_def)
  qed
  have "nms_spec cands c2 nms_thresh = concat (map F2 (class_keys S2))"
    by (simp add: nms_spec_def Let_def comp_def S2_def F2_def)
  also have "class_keys S2 = filter (\<lambda>k. k \<in> set (class_keys S2)) (class_keys S1)"
    unfolding S2 by (rule class_keys_filter)
  also have "concat (map F2 (filter (\<lambda>k. k \<in> set (class_keys S2)) (class_keys S1))) =
      concat (map F2 (class_keys S1))"
    by (rule concat_map_filter_empty) (simp add: e)
  also have "\<dots> = filter ?P2 (nms_spec cands c1 nms_thresh)"
    by (simp add: nms_spec_def Let_def comp_def S1_def [symmetric] filter_concat F)
  finally show ?thesis .
qed










lemma class_of_greedy:
  "d \<in> set (greedy nms_thresh (sort_desc (filter (\<lambda>d. class_id d = k) S))) \<Longrightarrow>
   class_id d = k \<and> d \<in> set S"
proof -
  assume "d \<in> set (greedy nms_thresh (sort_desc (filter (\<lambda>d. class_id d = k) S)))"
  then have "d \<in> set (sort_desc (filter (\<lambda>d. class_id d = k) S))"
    by (rule in_greedyD)
  then show ?thesis by (simp add: sort_desc_def)
qed




text \<open>
  The engine with the sort left open, and when the choice of the sort has no effect: a
  list without equal confidences has one sorted order only.
\<close>

lemma group_loop_with_sort_eq:
  "group_loop_with_sort srt nms_thresh m res =
     res @ concat (map (\<lambda>(k, v). greedy nms_thresh (srt v)) m)"
  by (induction m arbitrary: res) (auto simp: walk_loop_eq)

lemma group_loop_std_sort: "group_loop_with_sort std_sort nms_thresh m res = group_loop nms_thresh m res"
  by (induction m arbitrary: res) auto

lemma nms_with_std_sort: "nms_with_sort std_sort res out conf_thresh nms_thresh = nms res out conf_thresh nms_thresh"
  by (simp add: nms_with_sort_def nms_def group_loop_std_sort)

lemma std_sort_sorts_by_cmp: "sorts_by_cmp std_sort"
proof -
  have "sorted_wrt (\<lambda>a b. \<not> cmp b a) (sort_desc xs)" for xs
    using sorted_sort_desc [of xs]
    by (simp add: sorted_map cmp_def not_less)
  then show ?thesis by (simp add: sorts_by_cmp_def std_sort_eq) (simp add: sort_desc_def)
qed

lemma filter_key_single:
  "distinct (map f xs) \<Longrightarrow> k \<in> set xs \<Longrightarrow> filter (\<lambda>x. f k = f x) xs = [k]"
proof (induction xs)
  case Nil
  then show ?case by simp
next
  case (Cons a xs)
  show ?case
  proof (cases "k = a")
    case True
    from Cons.prems(1) have "\<forall>x\<in>set xs. f a \<noteq> f x" by auto
    then have "filter (\<lambda>x. f a = f x) xs = []" by (simp add: filter_empty_conv)
    with True show ?thesis by simp
  next
    case False
    with Cons.prems have k: "k \<in> set xs" and d: "distinct (map f xs)" by simp_all
    from Cons.prems(1) have "f a \<notin> f ` set xs" by simp
    with k have "f k \<noteq> f a" by (metis imageI)
    with Cons.IH [OF d k] show ?thesis by simp
  qed
qed

lemma sorted_permutation_unique:
  assumes m: "mset ys = mset xs"
    and s: "sorted_wrt (\<lambda>a b. \<not> cmp b a) ys"
    and d: "distinct (map conf xs)"
  shows "ys = sort_desc xs"
proof -
  let ?f = "\<lambda>d. - conf d"
  from d have dx: "distinct (map ?f xs)"
    by (simp add: distinct_map inj_on_def)
  from m have "mset (map ?f ys) = mset (map ?f xs)" by simp
  with dx have dy: "distinct (map ?f ys)"
    by (metis mset_eq_imp_distinct_iff)
  from m have se: "set ys = set xs" by (rule mset_eq_setD)
  have "sort_key ?f xs = ys"
  proof (rule properties_for_sort_key [OF m])
    fix k
    assume k: "k \<in> set ys"
    then have "filter (\<lambda>x. ?f k = ?f x) ys = [k]" by (rule filter_key_single [OF dy])
    moreover from k se have "filter (\<lambda>x. ?f k = ?f x) xs = [k]"
      by (intro filter_key_single [OF dx]) simp
    ultimately show "filter (\<lambda>x. ?f k = ?f x) ys = filter (\<lambda>x. ?f k = ?f x) xs" by simp
  next
    from s show "sorted (map ?f ys)"
      by (simp add: sorted_map cmp_def not_less)
  qed
  then show ?thesis by (simp add: sort_desc_def)
qed

lemma group_no_ties:
  assumes "distinct (map (\<lambda>d. (class_id d, conf d)) S)"
  shows "distinct (map conf (filter (\<lambda>d. class_id d = k) S))"
proof -
  from assms have dS: "distinct S" and inj: "inj_on (\<lambda>d. (class_id d, conf d)) (set S)"
    by (simp_all add: distinct_map)
  have "inj_on conf (set (filter (\<lambda>d. class_id d = k) S))"
  proof (rule inj_onI)
    fix a b
    assume "a \<in> set (filter (\<lambda>d. class_id d = k) S)" "b \<in> set (filter (\<lambda>d. class_id d = k) S)"
      "conf a = conf b"
    then have "a \<in> set S" "b \<in> set S" "(class_id a, conf a) = (class_id b, conf b)" by simp_all
    with inj show "a = b" by (simp add: inj_on_def)
  qed
  with dS show ?thesis by (simp add: distinct_map)
qed

lemma nms_with_sort_eq_nms:
  assumes c: "sorts_by_cmp srt" and n: "no_ties conf_thresh out"
  shows "nms_with_sort srt res out conf_thresh nms_thresh = nms res out conf_thresh nms_thresh"
proof -
  define S where "S = filter (\<lambda>d. \<not> conf d \<le> conf_thresh) (candidates out)"
  have e: "srt (filter (\<lambda>d. class_id d = k) S) = sort_desc (filter (\<lambda>d. class_id d = k) S)" for k
  proof (rule sorted_permutation_unique)
    from c show "mset (srt (filter (\<lambda>d. class_id d = k) S)) = mset (filter (\<lambda>d. class_id d = k) S)"
      by (simp add: sorts_by_cmp_def)
    from c show "sorted_wrt (\<lambda>a b. \<not> cmp b a) (srt (filter (\<lambda>d. class_id d = k) S))"
      by (simp add: sorts_by_cmp_def)
    from n show "distinct (map conf (filter (\<lambda>d. class_id d = k) S))"
      unfolding no_ties_def S_def [symmetric] by (rule group_no_ties)
  qed
  have "nms_with_sort srt res out conf_thresh nms_thresh =
      res @ concat (map (\<lambda>(k, v). greedy nms_thresh (srt v)) (grouped S))"
    by (simp add: nms_with_sort_def nms_collect_grouped group_loop_with_sort_eq S_def)
  also have "\<dots> = res @ concat (map (\<lambda>(k, v). greedy nms_thresh (sort_desc v)) (grouped S))"
    by (simp add: grouped_def comp_def e)
  also have "\<dots> = nms res out conf_thresh nms_thresh"
    by (simp add: nms_def nms_collect_grouped group_loop_eq S_def)
  finally show ?thesis .
qed

lemma no_ties_four_boxes: "no_ties (1 / 10) four_boxes"
  by (simp add: no_ties_def candidates_def det_count_def four_boxes_def buffer_of_def
      read_det_def det_size_def upt_conv_Cons)

lemma no_ties_mono:
  assumes "no_ties c1 out" and "c1 \<le> c2"
  shows "no_ties c2 out"
proof -
  have "filter (\<lambda>d. \<not> conf d \<le> c2) (candidates out) =
      filter (\<lambda>d. \<not> conf d \<le> c2) (filter (\<lambda>d. \<not> conf d \<le> c1) (candidates out))"
    unfolding filter_filter
    by (rule filter_cong [OF refl]) (use assms(2) in auto)
  with assms(1) show ?thesis
    unfolding no_ties_def by (simp only: distinct_map_filter)
qed

lemma four_boxes_counts:
  "length (nms [] four_boxes (1 / 10) (1 / 2)) = 1"
  "length (nms [] four_boxes (1 / 10) (11 / 20)) = 3"
  "length (nms [] four_boxes (1 / 10) (7 / 10)) = 2"
  "length (nms [] four_boxes (13 / 20) (11 / 20)) = 2"
  by code_simp+

text \<open>
  Claim C7, as amended.  Whatever \<open>std::sort\<close> does within what the standard requires
  of it: for a fixed candidate buffer in which no two candidates of the same class above
  the lower confidence threshold have the same confidence, and a fixed IoU threshold,
  raising the confidence threshold never increases the number of detections that \<open>nms\<close>
  emits.  Raising the IoU threshold can lower that number as well as raise it: there are
  buffers and thresholds for either.
\<close>

theorem nms_conf_thresh_monotone:
  assumes "sorts_by_cmp srt"
  shows "(no_ties c1 out \<and> c1 \<le> c2 \<longrightarrow>
      length (nms_with_sort srt res out c2 nms_thresh) \<le>
      length (nms_with_sort srt res out c1 nms_thresh)) \<and>
    (\<exists>out' c t1 t2. t1 \<le> t2 \<and>
      length (nms_with_sort srt [] out' c t2) < length (nms_with_sort srt [] out' c t1)) \<and>
    (\<exists>out' c t1 t2. t1 \<le> t2 \<and>
      length (nms_with_sort srt [] out' c t1) < length (nms_with_sort srt [] out' c t2))"
proof (intro conjI impI)
  assume a: "no_ties c1 out \<and> c1 \<le> c2"
  then have n2: "no_ties c2 out" using no_ties_mono by blast
  from a have "nms_spec (candidates out) c2 nms_thresh =
      filter (\<lambda>d. \<not> conf d \<le> c2) (nms_spec (candidates out) c1 nms_thresh)"
    by (intro nms_spec_conf_filter) simp
  then have "length (nms res out c2 nms_thresh) \<le> length (nms res out c1 nms_thresh)"
    by (simp add: nms_eq_spec)
  with a n2 show "length (nms_with_sort srt res out c2 nms_thresh) \<le>
      length (nms_with_sort srt res out c1 nms_thresh)"
    by (simp add: nms_with_sort_eq_nms [OF assms])
next
  have e: "nms_with_sort srt [] four_boxes (1 / 10) t = nms [] four_boxes (1 / 10) t" for t
    by (rule nms_with_sort_eq_nms [OF assms no_ties_four_boxes])
  have "(11 / 20 :: real) \<le> 7 / 10 \<and>
      length (nms_with_sort srt [] four_boxes (1 / 10) (7 / 10)) <
      length (nms_with_sort srt [] four_boxes (1 / 10) (11 / 20))"
    by (simp add: e four_boxes_counts)
  then show "\<exists>out' c t1 t2. t1 \<le> t2 \<and>
      length (nms_with_sort srt [] out' c t2) < length (nms_with_sort srt [] out' c t1)"
    by blast
  have "(1 / 2 :: real) \<le> 11 / 20 \<and>
      length (nms_with_sort srt [] four_boxes (1 / 10) (1 / 2)) <
      length (nms_with_sort srt [] four_boxes (1 / 10) (11 / 20))"
    by (simp add: e four_boxes_counts)
  then show "\<exists>out' c t1 t2. t1 \<le> t2 \<and>
      length (nms_with_sort srt [] out' c t1) < length (nms_with_sort srt [] out' c t2)"
    by blast
qed

text \<open>
  The theorem with the stable sort at the four boxes, IoU threshold \<open>11/20\<close>: the
  confidence threshold \<open>1/10\<close> gives three detections (\<open>A\<close>, \<open>C\<close>, \<open>D\<close>), the threshold
  \<open>13/20\<close> gives two (\<open>A\<close>, \<open>C\<close>).
\<close>

theorem nms_conf_thresh_monotone_witness:
  "sorts_by_cmp std_sort \<and> no_ties (1 / 10) four_boxes \<and> (1 / 10 :: real) \<le> 13 / 20 \<and>
   length (nms_with_sort std_sort [] four_boxes (13 / 20) (11 / 20)) \<le>
     length (nms_with_sort std_sort [] four_boxes (1 / 10) (11 / 20)) \<and>
   length (nms_with_sort std_sort [] four_boxes (13 / 20) (11 / 20)) = 2 \<and>
   length (nms_with_sort std_sort [] four_boxes (1 / 10) (11 / 20)) = 3"
proof -
  have h: "(1 / 10 :: real) \<le> 13 / 20" by simp
  show ?thesis
    using h std_sort_sorts_by_cmp no_ties_four_boxes
      nms_conf_thresh_monotone [OF std_sort_sorts_by_cmp, of "1 / 10" four_boxes "13 / 20"
        "[]" "11 / 20"]
    by (simp add: nms_with_std_sort four_boxes_counts)
qed

text \<open>
  Without the condition on equal confidences the first part fails for a sort that the
  standard allows.  On the tied boxes with IoU threshold \<open>1/2\<close>, the sort by parity puts
  \<open>X\<close> first among four candidates, and \<open>X\<close> suppresses the three others; among the
  three candidates above \<open>3/5\<close> it puts \<open>Y\<close> first, which suppresses \<open>X\<close> and leaves \<open>W\<close>.
\<close>

lemma parity_sort_sorts_by_cmp: "sorts_by_cmp parity_sort"
  using std_sort_sorts_by_cmp by (simp add: sorts_by_cmp_def parity_sort_def)

lemma tie_order_matters:
  "sorts_by_cmp parity_sort \<and> (1 / 10 :: real) \<le> 3 / 5 \<and>
   length (nms_with_sort parity_sort [] tied_boxes (1 / 10) (1 / 2)) = 1 \<and>
   length (nms_with_sort parity_sort [] tied_boxes (3 / 5) (1 / 2)) = 2"
proof -
  have "length (nms_with_sort parity_sort [] tied_boxes (1 / 10) (1 / 2)) = 1"
    "length (nms_with_sort parity_sort [] tied_boxes (3 / 5) (1 / 2)) = 2"
    by code_simp+
  with parity_sort_sorts_by_cmp show ?thesis by simp
qed

text \<open>
  Claim C7 as stated fails in its second half: on the four boxes, which have no equal
  confidences, raising the IoU
  threshold from \<open>11/20\<close> to \<open>7/10\<close> lowers the number of detections from three
  (\<open>A\<close>, \<open>C\<close>, \<open>D\<close>: \<open>A\<close> suppresses \<open>B\<close>) to two (\<open>A\<close>, \<open>B\<close>: \<open>B\<close> survives and suppresses both
  \<open>C\<close> and \<open>D\<close>).
\<close>

theorem nms_iou_thresh_not_monotone:
  "(11 / 20 :: real) \<le> 7 / 10 \<and>
   length (nms [] four_boxes (1 / 10) (11 / 20)) = 3 \<and>
   length (nms [] four_boxes (1 / 10) (7 / 10)) = 2"
  by code_simp


section \<open>Properties of the decoders\<close>

lemma clamp_range:
  "minVal \<le> maxVal \<Longrightarrow>
   minVal \<le> clamp val minVal maxVal \<and> clamp val minVal maxVal \<le> maxVal"
  by (simp add: clamp_def)

lemma convertBBox_clamped:
  "0 \<le> left (convertBBox bx by bw bh stride netW netH) \<and>
   left (convertBBox bx by bw bh stride netW netH) \<le> real netW \<and>
   0 \<le> top' (convertBBox bx by bw bh stride netW netH) \<and>
   top' (convertBBox bx by bw bh stride netW netH) \<le> real netH \<and>
   0 \<le> width (convertBBox bx by bw bh stride netW netH) \<and>
   width (convertBBox bx by bw bh stride netW netH) \<le> real netW \<and>
   0 \<le> height (convertBBox bx by bw bh stride netW netH) \<and>
   height (convertBBox bx by bw bh stride netW netH) \<le> real netH"
  by (simp add: convertBBox_def Let_def clamp_range)

lemma convertBBox_frame:
  "1 \<le> width (convertBBox bx by bw bh stride netW netH) \<Longrightarrow>
   1 \<le> height (convertBBox bx by bw bh stride netW netH) \<Longrightarrow>
   grid_box_ok netW netH
     (convertBBox bx by bw bh stride netW netH\<lparr>detectionConfidence := p, classId := c\<rparr>)"
  using convertBBox_clamped [of bx "by" bw bh stride netW netH]
  by (simp add: grid_box_ok_def)

lemma addBBoxProposal_ok:
  "list_all (grid_box_ok netW netH) binfo \<Longrightarrow>
   list_all (grid_box_ok netW netH)
     (addBBoxProposal bx by bw bh stride netW netH maxIndex maxProb binfo)"
  unfolding addBBoxProposal_def Let_def
  by (simp add: convertBBox_frame not_less)

lemma fold_invariant:
  "(\<And>x s. I s \<Longrightarrow> I (f x s)) \<Longrightarrow> I s \<Longrightarrow> I (fold f xs s)"
  by (induction xs arbitrary: s) simp_all

lemma decodeYoloV3Tensor_ok:
  "list_all (grid_box_ok netW netH)
     (decodeYoloV3Tensor detections msk anchors gridSizeW gridSizeH stride numBBoxes
        numOutputClasses netW netH)"
  unfolding decodeYoloV3Tensor_def
  apply (rule fold_invariant)
   apply (rule fold_invariant)
    apply (rule fold_invariant)
     apply (simp add: Let_def split_def addBBoxProposal_ok)
    apply assumption
   apply assumption
  apply simp
  done

lemma decodeYoloV2Tensor_ok:
  "list_all (grid_box_ok netW netH)
     (decodeYoloV2Tensor detections anchors gridSizeW gridSizeH stride numBBoxes
        numOutputClasses netW netH)"
  unfolding decodeYoloV2Tensor_def
  apply (rule fold_invariant)
   apply (rule fold_invariant)
    apply (rule fold_invariant)
     apply (simp add: Let_def split_def addBBoxProposal_ok)
    apply assumption
   apply assumption
  apply simp
  done

lemma addBBoxProposal_conf_blind:
  "length (addBBoxProposal bx by bw bh stride netW netH maxIndex maxProb binfo) =
   length (addBBoxProposal bx by bw bh stride netW netH maxIndex maxProb' binfo)"
  by (simp add: addBBoxProposal_def Let_def)

lemma length_SortLayers: "length (SortLayers ls) = length ls"
  by (simp add: SortLayers_def)

lemma v3_layer_loop_ok:
  "list_all (grid_box_ok (net_width networkInfo) (net_height networkInfo)) objects \<Longrightarrow>
   v3_layer_loop asserts sortedLayers networkInfo anchors masks idx objects = Returns objs \<Longrightarrow>
   list_all (grid_box_ok (net_width networkInfo) (net_height networkInfo)) objs"
proof (induction asserts sortedLayers networkInfo anchors masks idx objects
    rule: v3_layer_loop.induct)
  case (1 asserts sortedLayers networkInfo anchors masks idx objects)
  show ?case
  proof (cases "idx < length masks")
    case False
    with "1.prems" show ?thesis
      by (subst (asm) v3_layer_loop.simps) simp
  next
    case True
    define layer where "layer = sortedLayers ! idx"
    define gridSizeH where "gridSizeH = dims_d (inferDims layer) ! 1"
    define gridSizeW where "gridSizeW = dims_d (inferDims layer) ! 2"
    define stride where "stride = DIVUP (net_width networkInfo) gridSizeW"
    define outObjs where "outObjs = decodeYoloV3Tensor (buffer layer) (masks ! idx) anchors
        gridSizeW gridSizeH stride 3 NUM_CLASSES_YOLO
        (net_width networkInfo) (net_height networkInfo)"
    from "1.prems"(2) True have
      c1: "\<not> (asserts \<and> numDims (inferDims layer) \<noteq> 3)" and
      c2: "gridSizeW \<noteq> 0" and
      c3: "\<not> (asserts \<and> gridSizeH = 0)" and
      c4: "\<not> (asserts \<and> stride \<noteq> DIVUP (net_height networkInfo) gridSizeH)" and
      r: "v3_layer_loop asserts sortedLayers networkInfo anchors masks (idx + 1)
            (objects @ outObjs) = Returns objs"
      unfolding layer_def gridSizeH_def gridSizeW_def stride_def outObjs_def
      by (subst (asm) v3_layer_loop.simps, simp add: Let_def split: if_splits)+
    have "list_all (grid_box_ok (net_width networkInfo) (net_height networkInfo))
        (objects @ outObjs)"
      using "1.prems"(1) by (simp add: outObjs_def decodeYoloV3Tensor_ok)
    with r show ?thesis
      using "1.IH" [OF True layer_def c1 gridSizeH_def gridSizeW_def c2 stride_def c3 c4 outObjs_def]
      by blast
  qed
qed

lemma v3_layer_loop_disagree:
  "idx0 \<le> idx \<Longrightarrow> idx < length masks \<Longrightarrow> stride_disagrees networkInfo (sortedLayers ! idx) \<Longrightarrow>
   v3_layer_loop True sortedLayers networkInfo anchors masks idx0 objects \<noteq> Returns objs"
proof (induction True sortedLayers networkInfo anchors masks idx0 objects
    rule: v3_layer_loop.induct)
  case (1 sortedLayers networkInfo anchors masks idx0 objects)
  from "1.prems" have lt: "idx0 < length masks" by simp
  define layer where "layer = sortedLayers ! idx0"
  define gridSizeH where "gridSizeH = dims_d (inferDims layer) ! 1"
  define gridSizeW where "gridSizeW = dims_d (inferDims layer) ! 2"
  define stride where "stride = DIVUP (net_width networkInfo) gridSizeW"
  define outObjs where "outObjs = decodeYoloV3Tensor (buffer layer) (masks ! idx0) anchors
      gridSizeW gridSizeH stride 3 NUM_CLASSES_YOLO
      (net_width networkInfo) (net_height networkInfo)"
  show ?case
  proof
    assume ret: "v3_layer_loop True sortedLayers networkInfo anchors masks idx0 objects =
        Returns objs"
    from ret lt have
      c1: "\<not> (True \<and> numDims (inferDims layer) \<noteq> 3)" and
      c2: "gridSizeW \<noteq> 0" and
      c3: "\<not> (True \<and> gridSizeH = 0)" and
      c4: "\<not> (True \<and> stride \<noteq> DIVUP (net_height networkInfo) gridSizeH)" and
      r: "v3_layer_loop True sortedLayers networkInfo anchors masks (idx0 + 1)
            (objects @ outObjs) = Returns objs"
      unfolding layer_def gridSizeH_def gridSizeW_def stride_def outObjs_def
      by (subst (asm) v3_layer_loop.simps, simp add: Let_def split: if_splits)+
    from c4 have "\<not> stride_disagrees networkInfo (sortedLayers ! idx0)"
      by (simp add: stride_disagrees_def stride_def gridSizeW_def gridSizeH_def layer_def)
    with "1.prems" have "idx0 + 1 \<le> idx"
      by (cases "idx0 = idx") auto
    from "1.hyps" [OF lt layer_def c1 gridSizeH_def gridSizeW_def c2 stride_def c3 c4 outObjs_def
        this "1.prems"(2) "1.prems"(3)] r
    show False by simp
  qed
qed

lemma V3_count_mismatch:
  "length outputLayersInfo \<noteq> length masks \<Longrightarrow>
   NvDsInferParseYoloV3 asserts outputLayersInfo networkInfo detectionParams objectList
     anchors masks = Returns (False, objectList)"
  by (simp add: NvDsInferParseYoloV3_def length_SortLayers)

lemma V3_no_failure_return:
  "length outputLayersInfo = length masks \<Longrightarrow>
   NvDsInferParseYoloV3 asserts outputLayersInfo networkInfo detectionParams objectList
     anchors masks \<noteq> Returns (False, objs)"
  by (simp add: NvDsInferParseYoloV3_def length_SortLayers split: outcome.splits)

lemma V3_stride_disagree:
  assumes "length outputLayersInfo = length masks" and "idx < length masks"
    and "stride_disagrees networkInfo (SortLayers outputLayersInfo ! idx)"
  shows "NvDsInferParseYoloV3 True outputLayersInfo networkInfo detectionParams objectList
     anchors masks \<noteq> Returns r"
proof -
  have "v3_layer_loop True (SortLayers outputLayersInfo) networkInfo anchors masks 0 [] \<noteq>
      Returns objs" for objs
    using assms(2,3) by (intro v3_layer_loop_disagree) simp_all
  then show ?thesis
    using assms(1)
    by (auto simp: NvDsInferParseYoloV3_def length_SortLayers split: outcome.splits)
qed

lemma V3_overwrites:
  "NvDsInferParseYoloV3 asserts outputLayersInfo networkInfo detectionParams objectList
     anchors masks =
   (case NvDsInferParseYoloV3 asserts outputLayersInfo networkInfo detectionParams []
           anchors masks of
      Returns (ok, objs) \<Rightarrow> Returns (ok, if ok then objs else objectList)
    | AssertionFailure \<Rightarrow> AssertionFailure
    | UndefinedBehaviour \<Rightarrow> UndefinedBehaviour)"
  by (simp add: NvDsInferParseYoloV3_def Let_def split: outcome.splits)

lemma V2_overwrites:
  "NvDsInferParseYoloV2 asserts outputLayersInfo networkInfo detectionParams objectList =
   (case NvDsInferParseYoloV2 asserts outputLayersInfo networkInfo detectionParams [] of
      Returns (ok, objs) \<Rightarrow> Returns (ok, if ok then objs else objectList)
    | AssertionFailure \<Rightarrow> AssertionFailure
    | UndefinedBehaviour \<Rightarrow> UndefinedBehaviour)"
  by (simp add: NvDsInferParseYoloV2_def Let_def split: list.splits)

lemma push_objects_eq: "push_objects res objectList = objectList @ map to_object res"
  by (induction res arbitrary: objectList) simp_all

lemma V5_appends:
  "NvDsInferParseYoloV5 outputLayersInfo networkInfo detectionParams objectList =
   (case NvDsInferParseYoloV5 outputLayersInfo networkInfo detectionParams [] of
      Returns (ok, new) \<Rightarrow> Returns (ok, objectList @ new)
    | AssertionFailure \<Rightarrow> AssertionFailure
    | UndefinedBehaviour \<Rightarrow> UndefinedBehaviour)"
  by (simp add: NvDsInferParseYoloV5_def Let_def push_objects_eq split: list.splits)

lemma V4_appends:
  "NvDsInferParseYoloV4 outputLayersInfo networkInfo detectionParams objectList =
   (case NvDsInferParseYoloV4 outputLayersInfo networkInfo detectionParams [] of
      Returns (ok, new) \<Rightarrow> Returns (ok, objectList @ new)
    | AssertionFailure \<Rightarrow> AssertionFailure
    | UndefinedBehaviour \<Rightarrow> UndefinedBehaviour)"
  by (simp add: NvDsInferParseYoloV4_def Let_def push_objects_eq split: list.splits)

lemma tlt_loop_stop:
  assumes "\<not> (int i < keepCount0 \<and> length objectList \<le> topK)"
  shows "tlt_loop keepCount0 boxes scores cls networkInfo i objectList = objectList"
  by (subst tlt_loop.simps) (simp only: assms if_False)

lemma tlt_loop_step:
  "int i < keepCount0 \<Longrightarrow> length objectList \<le> topK \<Longrightarrow>
   tlt_loop keepCount0 boxes scores cls networkInfo i objectList =
     tlt_loop keepCount0 boxes scores cls networkInfo (i + 1)
       (if tlt_accept networkInfo boxes scores i
        then objectList @ [tlt_obj boxes scores cls i] else objectList)"
  by (subst tlt_loop.simps) (simp add: Let_def tlt_accept_def tlt_obj_def)

lemma tlt_accept_ok:
  "tlt_accept networkInfo boxes scores i \<Longrightarrow> tlt_box_ok networkInfo (tlt_obj boxes scores cls i)"
  by (simp add: tlt_accept_def tlt_obj_def tlt_box_ok_def Let_def)

lemma tlt_loop_emits:
  "\<exists>new. tlt_loop keepCount0 boxes scores cls networkInfo i objectList = objectList @ new \<and>
      length new \<le> nat (keepCount0 - int i) \<and>
      length (objectList @ new) \<le> max (length objectList) (topK + 1) \<and>
      list_all (tlt_box_ok networkInfo) new"
proof (induction "nat (keepCount0 - int i)" arbitrary: i objectList)
  case 0
  then have "\<not> (int i < keepCount0 \<and> length objectList \<le> topK)" by simp
  then have "tlt_loop keepCount0 boxes scores cls networkInfo i objectList = objectList @ []"
    by (simp add: tlt_loop_stop)
  then show ?case by (intro exI [of _ "[]"]) simp
next
  case (Suc n)
  show ?case
  proof (cases "int i < keepCount0 \<and> length objectList \<le> topK")
    case False
    then have "tlt_loop keepCount0 boxes scores cls networkInfo i objectList = objectList @ []"
      by (simp add: tlt_loop_stop)
    then show ?thesis by (intro exI [of _ "[]"]) simp
  next
    case True
    define objs1 where "objs1 = (if tlt_accept networkInfo boxes scores i
        then objectList @ [tlt_obj boxes scores cls i] else objectList)"
    have step: "tlt_loop keepCount0 boxes scores cls networkInfo i objectList =
        tlt_loop keepCount0 boxes scores cls networkInfo (i + 1) objs1"
      using True by (simp add: tlt_loop_step objs1_def)
    from Suc.hyps(2) have "n = nat (keepCount0 - int (i + 1))" by simp
    from Suc.hyps(1) [OF this, of objs1] obtain new where new:
      "tlt_loop keepCount0 boxes scores cls networkInfo (i + 1) objs1 = objs1 @ new"
      "length new \<le> nat (keepCount0 - int (i + 1))"
      "length (objs1 @ new) \<le> max (length objs1) (topK + 1)"
      "list_all (tlt_box_ok networkInfo) new"
      by blast
    show ?thesis
    proof (cases "tlt_accept networkInfo boxes scores i")
      case acc: True
      then have o: "objs1 = objectList @ [tlt_obj boxes scores cls i]"
        by (simp add: objs1_def)
      have "tlt_loop keepCount0 boxes scores cls networkInfo i objectList =
          objectList @ (tlt_obj boxes scores cls i # new)"
        using new(1) by (simp add: step o)
      moreover have "length (tlt_obj boxes scores cls i # new) \<le> nat (keepCount0 - int i)"
        using new(2) True by (simp add: nat_diff_distrib') arith
      moreover have "length (objectList @ (tlt_obj boxes scores cls i # new)) \<le>
          max (length objectList) (topK + 1)"
        using new(3) True by (simp add: o)
      moreover have "list_all (tlt_box_ok networkInfo) (tlt_obj boxes scores cls i # new)"
        using new(4) acc by (simp add: tlt_accept_ok)
      ultimately show ?thesis by blast
    next
      case rej: False
      then have o: "objs1 = objectList" by (simp add: objs1_def)
      have "tlt_loop keepCount0 boxes scores cls networkInfo i objectList = objectList @ new"
        using new(1) by (simp add: step o)
      moreover have "length new \<le> nat (keepCount0 - int i)"
        using new(2) by simp
      moreover have "length (objectList @ new) \<le> max (length objectList) (topK + 1)"
        using new(3) by (simp add: o)
      ultimately show ?thesis using new(4) by blast
    qed
  qed
qed


text \<open>
  The loop of the proposal-passthrough decoder in closed form: behind the entries the
  list held it puts the objects of the accepted entries, in the order of the index, as
  many as fit until the list is longer than \<open>topK\<close>.
\<close>

lemma tlt_loop_eq:
  "tlt_loop keepCount0 boxes scores cls networkInfo i objectList =
     objectList @ take (topK + 1 - length objectList)
       (map (tlt_obj boxes scores cls)
          (filter (tlt_accept networkInfo boxes scores) [i..<nat keepCount0]))"
proof (induction "nat (keepCount0 - int i)" arbitrary: i objectList)
  case 0
  then have le: "nat keepCount0 \<le> i" by arith
  then have "\<not> (int i < keepCount0 \<and> length objectList \<le> topK)" by arith
  then have "tlt_loop keepCount0 boxes scores cls networkInfo i objectList = objectList"
    by (rule tlt_loop_stop)
  with le show ?case by simp
next
  case (Suc n)
  then have lt: "int i < keepCount0" by simp
  then have u: "[i..<nat keepCount0] = i # [i + 1..<nat keepCount0]"
    by (simp add: upt_conv_Cons)
  show ?case
  proof (cases "length objectList \<le> topK")
    case False
    then show ?thesis by (simp add: tlt_loop_stop)
  next
    case True
    define objs1 where "objs1 = (if tlt_accept networkInfo boxes scores i
        then objectList @ [tlt_obj boxes scores cls i] else objectList)"
    from Suc(2) have n: "n = nat (keepCount0 - int (i + 1))" by simp
    have st: "tlt_loop keepCount0 boxes scores cls networkInfo i objectList =
        tlt_loop keepCount0 boxes scores cls networkInfo (i + 1) objs1"
      unfolding objs1_def by (rule tlt_loop_step [OF lt True])
    have IH: "tlt_loop keepCount0 boxes scores cls networkInfo (i + 1) objs1 =
        objs1 @ take (topK + 1 - length objs1)
          (map (tlt_obj boxes scores cls)
             (filter (tlt_accept networkInfo boxes scores) [i + 1..<nat keepCount0]))"
      by (rule Suc(1) [OF n])
    show ?thesis
      unfolding st IH u using True by (simp add: objs1_def Suc_diff_le)
  qed
qed

lemma tlt_emitted_eq:
  "tlt_emitted outputLayersInfo networkInfo objectList =
     take (topK + 1 - length objectList) (tlt_accepted outputLayersInfo networkInfo)"
  by (simp add: tlt_emitted_def tlt_accepted_def tlt_loop_eq)

lemma TLT_eq:
  "NvDsInferParseCustomYoloTLT outputLayersInfo networkInfo detectionParams objectList =
     (if length outputLayersInfo \<noteq> 4 then Returns (False, objectList)
      else Returns (True, objectList @ tlt_emitted outputLayersInfo networkInfo objectList))"
  by (simp add: NvDsInferParseCustomYoloTLT_def Let_def tlt_emitted_def tlt_loop_eq)


lemma same_boxes_at:
  "same_boxes (i * 4 + 0) = 0" "same_boxes (i * 4 + 1) = 0"
  "same_boxes (i * 4 + 2) = 10" "same_boxes (i * 4 + 3) = 10"
proof -
  have m: "(i * 4 + k) mod 4 = k mod 4" for k by simp
  show "same_boxes (i * 4 + 0) = 0" "same_boxes (i * 4 + 1) = 0"
    "same_boxes (i * 4 + 2) = 10" "same_boxes (i * 4 + 3) = 10"
    unfolding same_boxes_def m by simp_all
qed

lemma valid_entry_accepted: "tlt_accept net200x100 same_boxes valid_score i"
  unfolding tlt_accept_def Let_def same_boxes_at
  by (simp add: valid_score_def net200x100_def)

lemma valid_entry_obj:
  "tlt_obj same_boxes valid_score (\<lambda>i. 0) =
     (\<lambda>i. \<lparr>classId = 0, left = 0, top' = 0, width = 10, height = 10,
       detectionConfidence = 1 / 2\<rparr>)"
proof
  fix i
  show "tlt_obj same_boxes valid_score (\<lambda>i. 0) i =
     \<lparr>classId = 0, left = 0, top' = 0, width = 10, height = 10,
      detectionConfidence = 1 / 2\<rparr>"
    unfolding tlt_obj_def same_boxes_at
    by (simp add: valid_score_def float_to_uint_def)
qed


lemma V3_decoded_ok:
  "list_all (grid_box_ok (net_width networkInfo) (net_height networkInfo))
     (decoded (NvDsInferParseYoloV3 asserts outputLayersInfo networkInfo detectionParams
        objectList anchors masks))"
proof (cases "v3_layer_loop asserts (SortLayers outputLayersInfo) networkInfo anchors masks 0 []")
  case (Returns objs)
  have "list_all (grid_box_ok (net_width networkInfo) (net_height networkInfo)) objs"
    by (rule v3_layer_loop_ok [OF _ Returns]) simp
  with Returns show ?thesis
    by (simp add: decoded_def NvDsInferParseYoloV3_def Let_def)
next
  case AssertionFailure
  then show ?thesis
    by (simp add: decoded_def NvDsInferParseYoloV3_def Let_def)
next
  case UndefinedBehaviour
  then show ?thesis
    by (simp add: decoded_def NvDsInferParseYoloV3_def Let_def)
qed

lemma V2_decoded_ok:
  "list_all (grid_box_ok (net_width networkInfo) (net_height networkInfo))
     (decoded (NvDsInferParseYoloV2 asserts outputLayersInfo networkInfo detectionParams
        objectList))"
  by (simp add: decoded_def NvDsInferParseYoloV2_def Let_def decodeYoloV2Tensor_ok
      split: list.splits)

lemma nms_spec_member:
  "d \<in> set (nms_spec cands conf_thresh nms_thresh) \<Longrightarrow> conf_thresh < conf d \<and> d \<in> set cands"
proof -
  assume "d \<in> set (nms_spec cands conf_thresh nms_thresh)"
  then obtain k where "d \<in> set (greedy nms_thresh (sort_desc
      (filter (\<lambda>d. class_id d = k) (filter (\<lambda>d. \<not> conf d \<le> conf_thresh) cands))))"
    by (auto simp: nms_spec_def Let_def)
  then have "d \<in> set (filter (\<lambda>d. \<not> conf d \<le> conf_thresh) cands)"
    using class_of_greedy by blast
  then show ?thesis by simp
qed

lemma to_object_ok: "CONF_THRESH < conf r \<Longrightarrow> v5_box_ok (to_object r)"
  by (simp add: v5_box_ok_def to_object_def)

lemma nms_objects_ok:
  "list_all v5_box_ok (map to_object (nms [] out CONF_THRESH nms_thresh))"
  unfolding list_all_iff
proof
  fix obj
  assume "obj \<in> set (map to_object (nms [] out CONF_THRESH nms_thresh))"
  then obtain r where r: "r \<in> set (nms_spec (candidates out) CONF_THRESH nms_thresh)"
      "obj = to_object r"
    by (auto simp: nms_eq_spec)
  from r(1) have "CONF_THRESH < conf r" using nms_spec_member by blast
  with r(2) show "v5_box_ok obj" by (simp add: to_object_ok)
qed

lemma V5_decoded_ok:
  "list_all v5_box_ok (drop (length objectList)
     (decoded (NvDsInferParseYoloV5 outputLayersInfo networkInfo detectionParams objectList)))"
  by (simp add: decoded_def NvDsInferParseYoloV5_def Let_def push_objects_eq nms_objects_ok
      split: list.splits)

lemma V4_decoded_ok:
  "list_all v5_box_ok (drop (length objectList)
     (decoded (NvDsInferParseYoloV4 outputLayersInfo networkInfo detectionParams objectList)))"
  by (simp add: decoded_def NvDsInferParseYoloV4_def Let_def push_objects_eq nms_objects_ok
      split: list.splits)

lemma TLT_emits:
  "\<exists>ok new. NvDsInferParseCustomYoloTLT outputLayersInfo networkInfo detectionParams objectList =
       Returns (ok, objectList @ new) \<and>
     length new \<le> nat (buffer_int (outputLayersInfo ! 0) 0) \<and>
     length (objectList @ new) \<le> max (length objectList) (topK + 1) \<and>
     list_all (tlt_box_ok networkInfo) new"
proof (cases "length outputLayersInfo \<noteq> 4")
  case True
  then have "NvDsInferParseCustomYoloTLT outputLayersInfo networkInfo detectionParams objectList =
      Returns (False, objectList @ [])"
    by (simp add: NvDsInferParseCustomYoloTLT_def)
  then show ?thesis by (intro exI [of _ False] exI [of _ "[]"]) simp
next
  case False
  obtain new where new:
    "tlt_loop (buffer_int (outputLayersInfo ! 0) 0) (buffer (outputLayersInfo ! 1))
       (buffer (outputLayersInfo ! 2)) (buffer (outputLayersInfo ! 3)) networkInfo 0 objectList =
     objectList @ new"
    "length new \<le> nat (buffer_int (outputLayersInfo ! 0) 0 - int 0)"
    "length (objectList @ new) \<le> max (length objectList) (topK + 1)"
    "list_all (tlt_box_ok networkInfo) new"
    using tlt_loop_emits by blast
  from False new(1) have "NvDsInferParseCustomYoloTLT outputLayersInfo networkInfo
      detectionParams objectList = Returns (True, objectList @ new)"
    by (simp add: NvDsInferParseCustomYoloTLT_def Let_def)
  with new(2-4) show ?thesis by (intro exI [of _ True] exI [of _ new]) simp
qed

lemma TLT_decoded_ok:
  "list_all (tlt_box_ok networkInfo) (drop (length objectList)
     (decoded (NvDsInferParseCustomYoloTLT outputLayersInfo networkInfo detectionParams
        objectList)))"
proof -
  obtain ok new where
    "NvDsInferParseCustomYoloTLT outputLayersInfo networkInfo detectionParams objectList =
       Returns (ok, objectList @ new)" "list_all (tlt_box_ok networkInfo) new"
    using TLT_emits by blast
  then show ?thesis by (simp add: decoded_def)
qed

lemma class_fold_unchanged:
  "\<forall>i\<in>set is. \<not> g i > mp \<Longrightarrow>
   fold (\<lambda>i (maxProb, maxIndex).
           (let prob = g i in if prob > maxProb then (prob, int i) else (maxProb, maxIndex)))
     is (mp, mi) = (mp, mi)"
  by (induction "is") simp_all

lemma negative_objectness_zero: "6 \<le> k \<Longrightarrow> negative_objectness k = 0"
  by (simp add: negative_objectness_def buffer_of_def)

lemma class_loop_negative_0: "class_loop negative_objectness 0 (Suc 0) 0 80 = (1 / 2, 0)"
proof -
  have u: "[0..<80] = 0 # [1..<80]"
    by (simp add: upt_conv_Cons)
  have "\<forall>i\<in>set [1..<80]. \<not> negative_objectness (0 + Suc 0 * (0 * (5 + 80) + (5 + i))) > 1 / 2"
    by (simp add: negative_objectness_zero)
  then have f: "fold (\<lambda>i (maxProb, maxIndex).
           (let prob = negative_objectness (0 + Suc 0 * (0 * (5 + 80) + (5 + i)))
            in if prob > maxProb then (prob, int i) else (maxProb, maxIndex)))
     [1..<80] (1 / 2, 0) = (1 / 2, 0)"
    by (rule class_fold_unchanged)
  have b5: "negative_objectness 5 = 1 / 2"
    by (simp add: negative_objectness_def buffer_of_def)
  show ?thesis
    unfolding class_loop_def u using f by (simp add: Let_def b5)
qed

lemma class_loop_negative_rest: "0 < b \<Longrightarrow> class_loop negative_objectness 0 (Suc 0) b 80 = (0, - 1)"
proof -
  assume "0 < b"
  then have "\<forall>i\<in>set [0..<80]. \<not> negative_objectness (0 + Suc 0 * (b * (5 + 80) + (5 + i))) > 0"
    by (simp add: negative_objectness_zero)
  then show ?thesis
    unfolding class_loop_def by (rule class_fold_unchanged)
qed

section \<open>The arithmetic of the intersection over union\<close>























section \<open>The claims about the decoders\<close>

text \<open>
  Claim C2: what the code does at a candidate with a negative raw confidence.  On a
  \<open>1 \<times> 1\<close> grid, the first box of the cell has objectness \<open>-1\<close> and class score \<open>1/2\<close>,
  so its raw confidence is \<open>-1/2\<close>.  Neither \<open>decodeYoloV3Tensor\<close> nor \<open>addBBoxProposal\<close>
  tests the confidence: the candidate is not rejected, it is emitted with the detection
  confidence \<open>-1/2\<close>, outside the range \<open>[0.0, 1.0]\<close> that \<open>nvdsinfer.h\<close> requires of that
  field.
\<close>

theorem negative_confidence_emitted:
  "decodeYoloV3Tensor negative_objectness [6, 7, 8] kANCHORS_V3 1 1 416 3 80 416 416 =
     [\<lparr>classId = 0, left = 150, top' = 163, width = 116, height = 90,
       detectionConfidence = - (1 / 2)\<rparr>]"
proof -
  have u: "[0..<3] = [0, 1, 2]" "[0..<1] = [0]"
    by code_simp+
  have b: "negative_objectness 0 = 1 / 2" "negative_objectness (Suc 0) = 1 / 2"
      "negative_objectness (Suc (Suc 0)) = 1" "negative_objectness 2 = 1"
      "negative_objectness 3 = 1" "negative_objectness 4 = - 1"
    by (simp_all add: negative_objectness_def buffer_of_def)
  show ?thesis
    unfolding decodeYoloV3Tensor_def u
    by (simp add: class_loop_negative_0 class_loop_negative_rest negative_objectness_zero b
        kANCHORS_V3_def addBBoxProposal_def convertBBox_def clamp_def int_to_uint_def Let_def)
qed

text \<open>
  The two other tests of the grid-anchor decoder are there.  The box that \<open>convertBBox\<close>
  computes has its left and top edge, its width and its height clamped into the network
  resolution (with \<open>clamp\<close> as the specification describes it); \<open>addBBoxProposal\<close> either
  leaves the list as it is or appends that box with the confidence stored as it comes,
  and which of the two it does never depends on the confidence; and every box that the
  tensor decoder emits has a clamped width and height of at least \<open>1\<close>.
\<close>

lemma grid_decoder_clamps_and_discards:
  "(0 \<le> left (convertBBox bx by bw bh stride netW netH) \<and>
    left (convertBBox bx by bw bh stride netW netH) \<le> real netW \<and>
    0 \<le> top' (convertBBox bx by bw bh stride netW netH) \<and>
    top' (convertBBox bx by bw bh stride netW netH) \<le> real netH \<and>
    0 \<le> width (convertBBox bx by bw bh stride netW netH) \<and>
    width (convertBBox bx by bw bh stride netW netH) \<le> real netW \<and>
    0 \<le> height (convertBBox bx by bw bh stride netW netH) \<and>
    height (convertBBox bx by bw bh stride netW netH) \<le> real netH) \<and>
   (addBBoxProposal bx by bw bh stride netW netH maxIndex maxProb binfo = binfo \<or>
    addBBoxProposal bx by bw bh stride netW netH maxIndex maxProb binfo =
      binfo @ [convertBBox bx by bw bh stride netW netH
                 \<lparr>detectionConfidence := maxProb, classId := int_to_uint maxIndex\<rparr>]) \<and>
   length (addBBoxProposal bx by bw bh stride netW netH maxIndex maxProb binfo) =
     length (addBBoxProposal bx by bw bh stride netW netH maxIndex maxProb' binfo) \<and>
   list_all (grid_box_ok netW netH)
     (decodeYoloV3Tensor detections msk anchors gridSizeW gridSizeH stride numBBoxes
        numOutputClasses netW netH)"
proof -
  have "addBBoxProposal bx by bw bh stride netW netH maxIndex maxProb binfo = binfo \<or>
      addBBoxProposal bx by bw bh stride netW netH maxIndex maxProb binfo =
        binfo @ [convertBBox bx by bw bh stride netW netH
                   \<lparr>detectionConfidence := maxProb, classId := int_to_uint maxIndex\<rparr>]"
    by (simp add: addBBoxProposal_def Let_def)
  then show ?thesis
    using convertBBox_clamped [of bx "by" bw bh stride netW netH]
      addBBoxProposal_conf_blind [of bx "by" bw bh stride netW netH maxIndex maxProb binfo maxProb']
      decodeYoloV3Tensor_ok [of netW netH detections msk anchors gridSizeW gridSizeH stride
        numBBoxes numOutputClasses]
    by blast
qed

text \<open>
  Claim C3, as amended.  When the number of output layers differs from the number of
  anchor-mask groups, \<open>NvDsInferParseYoloV3\<close> returns failure and leaves the caller's list
  as it was.  When the numbers agree, the call never returns failure; a disagreement of
  the stride by the width with the stride by the height is met by an \<open>assert\<close> only: with
  assertions active the call does not return at all.
\<close>

theorem V3_shape_mismatch:
  "(length outputLayersInfo \<noteq> length masks \<longrightarrow>
      NvDsInferParseYoloV3 asserts outputLayersInfo networkInfo detectionParams objectList
        anchors masks = Returns (False, objectList)) \<and>
   (length outputLayersInfo = length masks \<longrightarrow>
      (\<forall>objs. NvDsInferParseYoloV3 asserts outputLayersInfo networkInfo detectionParams
         objectList anchors masks \<noteq> Returns (False, objs))) \<and>
   (length outputLayersInfo = length masks \<and> idx < length masks \<and>
    stride_disagrees networkInfo (SortLayers outputLayersInfo ! idx) \<longrightarrow>
      (\<forall>r. NvDsInferParseYoloV3 True outputLayersInfo networkInfo detectionParams
         objectList anchors masks \<noteq> Returns r))"
proof (intro conjI impI allI)
  assume "length outputLayersInfo \<noteq> length masks"
  then show "NvDsInferParseYoloV3 asserts outputLayersInfo networkInfo detectionParams
      objectList anchors masks = Returns (False, objectList)"
    by (rule V3_count_mismatch)
next
  fix objs
  assume "length outputLayersInfo = length masks"
  then show "NvDsInferParseYoloV3 asserts outputLayersInfo networkInfo detectionParams
      objectList anchors masks \<noteq> Returns (False, objs)"
    by (rule V3_no_failure_return)
next
  fix r
  assume "length outputLayersInfo = length masks \<and> idx < length masks \<and>
      stride_disagrees networkInfo (SortLayers outputLayersInfo ! idx)"
  then show "NvDsInferParseYoloV3 True outputLayersInfo networkInfo detectionParams
      objectList anchors masks \<noteq> Returns r"
    using V3_stride_disagree by blast
qed

text \<open>
  The theorem at two inputs on a \<open>416 \<times> 416\<close> network: two layers for the three mask
  groups of YoloV3 (scenario E of the specification), and three layers whose \<open>13 \<times> 26\<close>
  grid gives the strides \<open>16\<close> and \<open>32\<close>.
\<close>

theorem V3_shape_mismatch_witness:
  "NvDsInferParseYoloV3 True [layer_13x26, layer_13x26] net416 params80 [old_object]
     kANCHORS_V3 kMASKS_V3 = Returns (False, [old_object]) \<and>
   NvDsInferParseYoloV3 False [layer_13x26, layer_13x26, layer_13x26] net416 params80
     [old_object] kANCHORS_V3 kMASKS_V3 \<noteq> Returns (False, [old_object]) \<and>
   NvDsInferParseYoloV3 True [layer_13x26, layer_13x26, layer_13x26] net416 params80
     [old_object] kANCHORS_V3 kMASKS_V3 \<noteq> Returns (True, [])"
proof -
  have s: "SortLayers [layer_13x26, layer_13x26, layer_13x26] ! 0 = layer_13x26"
    by (simp add: SortLayers_def)
  have d: "stride_disagrees net416 layer_13x26"
    by (simp add: stride_disagrees_def net416_def layer_13x26_def DIVUP_def)
  show ?thesis
    using
      V3_shape_mismatch [where outputLayersInfo = "[layer_13x26, layer_13x26]"
        and masks = kMASKS_V3 and asserts = True and networkInfo = net416
        and detectionParams = params80 and objectList = "[old_object]"
        and anchors = kANCHORS_V3]
      V3_shape_mismatch [where outputLayersInfo = "[layer_13x26, layer_13x26, layer_13x26]"
        and masks = kMASKS_V3 and asserts = False and networkInfo = net416
        and detectionParams = params80 and objectList = "[old_object]"
        and anchors = kANCHORS_V3 and idx = 0]
      V3_shape_mismatch [where outputLayersInfo = "[layer_13x26, layer_13x26, layer_13x26]"
        and masks = kMASKS_V3 and asserts = True and networkInfo = net416
        and detectionParams = params80 and objectList = "[old_object]"
        and anchors = kANCHORS_V3 and idx = 0]
    by (simp add: kMASKS_V3_def s d)
qed

text \<open>
  Claim C3 as stated fails for the stride: with the three \<open>13 \<times> 26\<close> layers the call with
  active assertions ends in the failed \<open>assert\<close>, not in a returned decode failure.
\<close>

theorem V3_stride_disagreement_aborts:
  "NvDsInferParseCustomYoloV3 True [layer_13x26, layer_13x26, layer_13x26] net416 params80 [] =
     AssertionFailure"
proof -
  have s: "SortLayers [layer_13x26, layer_13x26, layer_13x26] =
      [layer_13x26, layer_13x26, layer_13x26]"
    by (simp add: SortLayers_def)
  have "v3_layer_loop True [layer_13x26, layer_13x26, layer_13x26] net416 kANCHORS_V3
      kMASKS_V3 0 [] = AssertionFailure"
    by (subst v3_layer_loop.simps)
       (simp add: kMASKS_V3_def layer_13x26_def net416_def DIVUP_def Let_def)
  then show ?thesis
    by (simp add: NvDsInferParseCustomYoloV3_def NvDsInferParseYoloV3_def s kMASKS_V3_def)
qed

text \<open>
  Claim C4: what the code does at an entry whose bottom edge lies beyond the network
  height.  On a \<open>200 \<times> 100\<close> network the entry \<open>(0, 50, 10, 150)\<close> with score \<open>7/10\<close> has
  its bottom coordinate \<open>150\<close> above the height \<open>100\<close>; the third test compares that
  coordinate with the width \<open>200\<close>, the entry passes, and it is emitted with top \<open>50\<close> and
  height \<open>100\<close>.
\<close>

theorem tlt_bottom_beyond_height_emitted:
  "real (net_height net200x100) < 150 \<and>
   NvDsInferParseCustomYoloTLT
     (tlt_layers 1 (buffer_of [0, 50, 10, 150]) (buffer_of [7 / 10]) (buffer_of [2]))
     net200x100 params80 [] =
   Returns (True, [\<lparr>classId = 2, left = 0, top' = 50, width = 10, height = 100,
      detectionConfidence = 7 / 10\<rparr>])"
  by code_simp

text \<open>
  Claim C5: what the code does at an entry with an empty box and a negative score.  On
  a \<open>200 \<times> 100\<close> network the proposal-passthrough decoder is given the one entry
  \<open>(5, 5, 5, 5)\<close> with score \<open>-1\<close>.  The entry passes the five tests, none of which
  looks for a score below \<open>0\<close> or for a box without extent, and it is emitted as a
  detection of width \<open>0\<close>, height \<open>0\<close> and confidence \<open>-1\<close>: neither is the width or the
  height positive, nor does the confidence lie in the range \<open>[0.0, 1.0]\<close> that
  \<open>nvdsinfer.h\<close> requires of it.
\<close>

theorem empty_box_negative_score_emitted:
  "NvDsInferParseCustomYoloTLT
     (tlt_layers 1 (buffer_of [5, 5, 5, 5]) (buffer_of [- 1]) (buffer_of [0]))
     net200x100 params80 [] =
   Returns (True, [\<lparr>classId = 0, left = 5, top' = 5, width = 0, height = 0,
      detectionConfidence = - 1\<rparr>])"
  by code_simp

text \<open>
  What the tests that are in the code do guarantee, for the numbers of this model (a NaN
  fails every comparison of the source and passes all of these tests).  Every detection
  that an entry point emits has a left edge, a top edge, a width and a height that are
  not negative.  The grid-anchor decoders (YoloV3, YoloV2) emit only boxes of width and
  height at least \<open>1\<close> and at most the network's, with the left and the top edge inside
  \<open>[0, width] \<times> [0, height]\<close> of the network; the direct-regression decoders (YoloV5,
  YoloV4) emit only confidences above \<open>CONF_THRESH\<close>; the proposal-passthrough decoder
  emits only scores up to \<open>1.001\<close> and boxes whose left and top edge lie inside the
  network resolution and whose width and height do not exceed it.
\<close>

lemma decoder_output_bounds:
  "list_all (grid_box_ok (net_width networkInfo) (net_height networkInfo))
     (decoded (NvDsInferParseYoloV3 asserts outputLayersInfo networkInfo detectionParams
        objectList anchors masks)) \<and>
   list_all (grid_box_ok (net_width networkInfo) (net_height networkInfo))
     (decoded (NvDsInferParseYoloV2 asserts outputLayersInfo networkInfo detectionParams
        objectList)) \<and>
   list_all v5_box_ok (drop (length objectList)
     (decoded (NvDsInferParseYoloV5 outputLayersInfo networkInfo detectionParams objectList))) \<and>
   list_all v5_box_ok (drop (length objectList)
     (decoded (NvDsInferParseYoloV4 outputLayersInfo networkInfo detectionParams objectList))) \<and>
   list_all (tlt_box_ok networkInfo) (drop (length objectList)
     (decoded (NvDsInferParseCustomYoloTLT outputLayersInfo networkInfo detectionParams
        objectList)))"
  by (intro conjI V3_decoded_ok V2_decoded_ok V5_decoded_ok V4_decoded_ok TLT_decoded_ok)




text \<open>
  The guard of the loop compares the length of the list with \<open>topK\<close> by \<open><=\<close>: with
  \<open>300\<close> valid entries the list holds \<open>topK\<close> entries when entry \<open>200\<close> is looked at, the
  guard still holds, and the list ends with \<open>topK + 1 = 201\<close> entries.
\<close>

lemma tlt_list_reaches_topK_plus_one:
  "NvDsInferParseCustomYoloTLT (tlt_layers 300 same_boxes valid_score (\<lambda>i. 0))
     net200x100 params80 [] =
   Returns (True, replicate 201 \<lparr>classId = 0, left = 0, top' = 0, width = 10, height = 10,
     detectionConfidence = 1 / 2\<rparr>)"
proof -
  have "tlt_accepted (tlt_layers 300 same_boxes valid_score (\<lambda>i. 0)) net200x100 =
      replicate 300 \<lparr>classId = 0, left = 0, top' = 0, width = 10, height = 10,
       detectionConfidence = 1 / 2\<rparr>"
    by (simp add: tlt_accepted_def tlt_layers_def valid_entry_accepted valid_entry_obj map_replicate_const)
  then show ?thesis
    by (simp add: TLT_eq tlt_emitted_eq tlt_layers_def topK_def)
qed

text \<open>
  Claim C10, as amended.  The YoloV5, YoloV4 and proposal-passthrough entry points
  append to the caller's list without clearing it: the entries it held survive, in
  front, and for the proposal-passthrough decoder they count towards its cap, so that a
  list already beyond the cap gains nothing.  The YoloV3 and YoloV2 entry points
  overwrite the list when they succeed: the result is the one they give for an empty
  list.  When they fail they leave the list as it was.
\<close>

theorem objectList_append_or_overwrite:
  "NvDsInferParseYoloV5 outputLayersInfo networkInfo detectionParams objectList =
     (case NvDsInferParseYoloV5 outputLayersInfo networkInfo detectionParams [] of
        Returns (ok, new) \<Rightarrow> Returns (ok, objectList @ new)
      | AssertionFailure \<Rightarrow> AssertionFailure
      | UndefinedBehaviour \<Rightarrow> UndefinedBehaviour) \<and>
   NvDsInferParseYoloV4 outputLayersInfo networkInfo detectionParams objectList =
     (case NvDsInferParseYoloV4 outputLayersInfo networkInfo detectionParams [] of
        Returns (ok, new) \<Rightarrow> Returns (ok, objectList @ new)
      | AssertionFailure \<Rightarrow> AssertionFailure
      | UndefinedBehaviour \<Rightarrow> UndefinedBehaviour) \<and>
   (\<exists>ok new. NvDsInferParseCustomYoloTLT outputLayersInfo networkInfo detectionParams
        objectList = Returns (ok, objectList @ new) \<and>
      length (objectList @ new) \<le> max (length objectList) (topK + 1)) \<and>
   NvDsInferParseYoloV3 asserts outputLayersInfo networkInfo detectionParams objectList
       anchors masks =
     (case NvDsInferParseYoloV3 asserts outputLayersInfo networkInfo detectionParams []
             anchors masks of
        Returns (ok, objs) \<Rightarrow> Returns (ok, if ok then objs else objectList)
      | AssertionFailure \<Rightarrow> AssertionFailure
      | UndefinedBehaviour \<Rightarrow> UndefinedBehaviour) \<and>
   NvDsInferParseYoloV2 asserts outputLayersInfo networkInfo detectionParams objectList =
     (case NvDsInferParseYoloV2 asserts outputLayersInfo networkInfo detectionParams [] of
        Returns (ok, objs) \<Rightarrow> Returns (ok, if ok then objs else objectList)
      | AssertionFailure \<Rightarrow> AssertionFailure
      | UndefinedBehaviour \<Rightarrow> UndefinedBehaviour)"
proof -
  have "\<exists>ok new. NvDsInferParseCustomYoloTLT outputLayersInfo networkInfo detectionParams
        objectList = Returns (ok, objectList @ new) \<and>
      length (objectList @ new) \<le> max (length objectList) (topK + 1)"
    using TLT_emits [of outputLayersInfo networkInfo detectionParams objectList] by blast
  then show ?thesis
    by (intro conjI V5_appends V4_appends V3_overwrites V2_overwrites)
qed

text \<open>
  Claim C10 as stated fails for a call that fails: \<open>NvDsInferParseCustomYoloV3\<close> without
  any output layer returns failure and the entry that the list held is still there.
\<close>

theorem V3_failure_keeps_objectList:
  "NvDsInferParseCustomYoloV3 True [] net416 params80 [old_object] =
     Returns (False, [old_object])"
  by (simp add: NvDsInferParseCustomYoloV3_def NvDsInferParseYoloV3_def SortLayers_def
      kMASKS_V3_def)

section \<open>The claim about the intersection over union\<close>




end
